theory Spec2Isabelle
  imports Main "HOL-Library.Word"
begin

unbundle bit_operations_syntax

section \<open>Constants of the missing header \<^verbatim>\<open>mm/paging.h\<close>\<close>

text \<open>
  \<^verbatim>\<open>src/kernel/mm/paging.c\<close> includes \<^verbatim>\<open>mm/paging.h\<close>, whose text is not
  available. The constants below are the ones \<^verbatim>\<open>paging.c\<close> uses from it.
\<close>

type_synonym vaddr_t = "64 word"
type_synonym paddr_t = "64 word"
type_synonym pml_entry_t = "64 word"

text \<open>Pointers (\<^verbatim>\<open>pml_table_t*\<close>, \<^verbatim>\<open>pml_entry_t*\<close>, \<^verbatim>\<open>void*\<close>) are 64-bit addresses.\<close>

type_synonym ptr = "64 word"

definition NULL :: ptr where
  "NULL = 0"

text \<open>Modelled from the spec: \<^verbatim>\<open>PAGE_SIZE\<close> is missing; pages are 4 KiB.\<close>

definition PAGE_SIZE :: "64 word" where
  "PAGE_SIZE = 0x1000"

text \<open>Modelled from the spec: \<^verbatim>\<open>PAGE_OFFSET_SIZE\<close> is missing; the in-page byte offset
  of a 4 KiB page takes the 12 low-order bits of a virtual address.\<close>

definition PAGE_OFFSET_SIZE :: nat where
  "PAGE_OFFSET_SIZE = 12"

text \<open>Modelled from the spec: \<^verbatim>\<open>PAGE_IDX_SIZE\<close> and \<^verbatim>\<open>PAGE_IDX_MASK\<close> are missing; a
  table has 512 entries, so an index takes 9 bits.\<close>

definition PAGE_IDX_SIZE :: nat where
  "PAGE_IDX_SIZE = 9"

definition PAGE_IDX_MASK :: "64 word" where
  "PAGE_IDX_MASK = 0x1FF"

text \<open>Modelled from the spec: the level enumeration \<^verbatim>\<open>PML1 .. PML4\<close> is missing; the
  hierarchy has four levels, and \<^verbatim>\<open>paging_vaddr_idx\<close> shifts by
  \<^verbatim>\<open>PAGE_IDX_SIZE * level + PAGE_OFFSET_SIZE\<close>, which selects the leaf index for level
  0 and the top-level index for level 3. Levels are \<^verbatim>\<open>uint8_t\<close> in the source; the
  walk never decrements a level below the requested one, so \<open>nat\<close> is exact.\<close>

definition PML1 :: nat where
  "PML1 = 0"

definition PML4 :: nat where
  "PML4 = 3"

text \<open>Modelled from the spec: \<^verbatim>\<open>PAGE_PRESENT\<close> and \<^verbatim>\<open>PAGE_ADDR\<close> are missing; an entry
  is a 64-bit word of the x86-64 4-level layout: the present flag is bit 0, the frame
  address is bits 12 to 51, and the remaining low and high bits are flags.\<close>

definition PAGE_PRESENT :: "64 word" where
  "PAGE_PRESENT = 0x1"

definition PAGE_ADDR :: "64 word" where
  "PAGE_ADDR = 0x000FFFFFFFFFF000"

text \<open>Modelled from the spec: the masks \<^verbatim>\<open>PAGE_FAULT_*_MASK\<close> are missing; the handler's
  comment refers to section 4.7 of the Intel manual, which puts P, W/R, U/S, RSVD, I/D and
  PK in bits 0 to 5 of the error code and SGX in bit 15.\<close>

definition PAGE_FAULT_P_MASK :: "64 word" where
  "PAGE_FAULT_P_MASK = push_bit 0 1"

definition PAGE_FAULT_WR_MASK :: "64 word" where
  "PAGE_FAULT_WR_MASK = push_bit 1 1"

definition PAGE_FAULT_US_MASK :: "64 word" where
  "PAGE_FAULT_US_MASK = push_bit 2 1"

definition PAGE_FAULT_RSVD_MASK :: "64 word" where
  "PAGE_FAULT_RSVD_MASK = push_bit 3 1"

definition PAGE_FAULT_IF_MASK :: "64 word" where
  "PAGE_FAULT_IF_MASK = push_bit 4 1"

definition PAGE_FAULT_PK_MASK :: "64 word" where
  "PAGE_FAULT_PK_MASK = push_bit 5 1"

definition PAGE_FAULT_SGX_MASK :: "64 word" where
  "PAGE_FAULT_SGX_MASK = push_bit 15 1"

text \<open>\<^verbatim>\<open>ALIGN_DOWN(addr, align)\<close> of \<^verbatim>\<open>sys/sys.h\<close>:
  \<^verbatim>\<open>((uintptr_t) ((addr) & ~(align - 1)))\<close>. The mask is taken at the width of the
  address, as it is when \<^verbatim>\<open>align\<close> is a signed \<^verbatim>\<open>int\<close> constant (the complement is then
  sign-extended) or a 64-bit one.\<close>

definition ALIGN_DOWN :: "64 word \<Rightarrow> 64 word \<Rightarrow> 64 word" where
  "ALIGN_DOWN addr align = addr AND NOT (align - 1)"

text \<open>\<^verbatim>\<open>sizeof(ptable)\<close> in \<^verbatim>\<open>paging_create\<close>: \<^verbatim>\<open>ptable\<close> is a \<^verbatim>\<open>pml_table_t*\<close>, and a
  pointer takes 8 bytes on x86-64.\<close>

definition sizeof_ptable :: nat where
  "sizeof_ptable = 8"

text \<open>\<^verbatim>\<open>sizeof(pml_entry_t)\<close>: an entry is a 64-bit word.\<close>

definition sizeof_entry :: "64 word" where
  "sizeof_entry = 8"


section \<open>Machine state\<close>

text \<open>Byte-addressed memory. A table entry is 8 bytes, little-endian.\<close>

type_synonym memory = "64 word \<Rightarrow> 8 word"

definition byte_of :: "64 word \<Rightarrow> nat \<Rightarrow> 8 word" where
  "byte_of v i = ucast (drop_bit (8 * i) v)"

definition load64 :: "memory \<Rightarrow> ptr \<Rightarrow> 64 word" where
  "load64 m a =
     ucast (m a) OR push_bit 8 (ucast (m (a + 1))) OR push_bit 16 (ucast (m (a + 2)))
     OR push_bit 24 (ucast (m (a + 3))) OR push_bit 32 (ucast (m (a + 4)))
     OR push_bit 40 (ucast (m (a + 5))) OR push_bit 48 (ucast (m (a + 6)))
     OR push_bit 56 (ucast (m (a + 7)))"

definition store64 :: "memory \<Rightarrow> ptr \<Rightarrow> 64 word \<Rightarrow> memory" where
  "store64 m a v =
     m(a := byte_of v 0, a + 1 := byte_of v 1, a + 2 := byte_of v 2, a + 3 := byte_of v 3,
       a + 4 := byte_of v 4, a + 5 := byte_of v 5, a + 6 := byte_of v 6, a + 7 := byte_of v 7)"

datatype severity = Info | Warning | Error

text \<open>A diagnostic line: its level, its format string and the values of its arguments.\<close>

type_synonym log_line = "severity \<times> string \<times> 64 word list"

text \<open>
  The state the paging code reads and writes: memory, the frames the physical allocator
  still has to hand out, the diagnostic output, the control registers CR2 and CR3, and the
  addresses whose translation was invalidated on this processor, in order.
\<close>

record kstate =
  mem :: memory
  frames :: "paddr_t list"
  out :: "log_line list"
  cr2 :: "64 word"
  cr3 :: "64 word"
  flushed :: "vaddr_t list"

text \<open>
  A call either returns a value and the state it leaves, or stops: on a load or store
  through the null pointer (address 0, which C leaves undefined), or in \<^verbatim>\<open>panic\<close>.
  The state reached is kept in both cases.
\<close>

datatype fault = NullDeref | Panic string

type_synonym 'a res = "(fault \<times> kstate) + ('a \<times> kstate)"

definition read64 :: "ptr \<Rightarrow> kstate \<Rightarrow> 64 word res" where
  "read64 p s = (if p = NULL then Inl (NullDeref, s) else Inr (load64 (mem s) p, s))"

definition write64 :: "ptr \<Rightarrow> 64 word \<Rightarrow> kstate \<Rightarrow> unit res" where
  "write64 p v s =
     (if p = NULL then Inl (NullDeref, s) else Inr ((), s\<lparr>mem := store64 (mem s) p v\<rparr>))"

definition write8 :: "ptr \<Rightarrow> 8 word \<Rightarrow> kstate \<Rightarrow> unit res" where
  "write8 p v s =
     (if p = NULL then Inl (NullDeref, s) else Inr ((), s\<lparr>mem := (mem s)(p := v)\<rparr>))"


section \<open>External collaborators\<close>

text \<open>Modelled from the spec: the logging interface (\<^verbatim>\<open>log.h\<close>) is missing; it gives
  leveled diagnostic output (info, warning, error) and a fatal \<^verbatim>\<open>panic\<close> that never
  returns.\<close>

definition emit :: "severity \<Rightarrow> string \<Rightarrow> 64 word list \<Rightarrow> kstate \<Rightarrow> kstate" where
  "emit lvl fmt args s = s\<lparr>out := out s @ [(lvl, fmt, args)]\<rparr>"

definition log :: "string \<Rightarrow> 64 word list \<Rightarrow> kstate \<Rightarrow> kstate" where
  "log = emit Info"

definition warning :: "string \<Rightarrow> 64 word list \<Rightarrow> kstate \<Rightarrow> kstate" where
  "warning = emit Warning"

definition error :: "string \<Rightarrow> 64 word list \<Rightarrow> kstate \<Rightarrow> kstate" where
  "error = emit Error"

definition panic :: "string \<Rightarrow> kstate \<Rightarrow> 'a res" where
  "panic msg s = Inl (Panic msg, s)"

text \<open>Modelled from the spec: the physical allocator (\<^verbatim>\<open>mm/pmm.h\<close>) is missing;
  \<^verbatim>\<open>alloc(zone, page_count)\<close> returns the physical address of a frame and fails if no
  memory is available. The frames it will return are the list \<open>frames\<close>, whose contents
  in memory it does not touch; with no frame left it returns the null pointer.\<close>

datatype pmm_zone = PMM_ZONE_NORMAL

definition pmm_alloc :: "pmm_zone \<Rightarrow> nat \<Rightarrow> kstate \<Rightarrow> paddr_t \<times> kstate" where
  "pmm_alloc zone n s =
     (case frames s of [] \<Rightarrow> (NULL, s) | f # fs \<Rightarrow> (f, s\<lparr>frames := fs\<rparr>))"

text \<open>Modelled from the spec: the translation-cache invalidation primitive \<^verbatim>\<open>invlpg\<close>
  is missing; it accepts one virtual address and invalidates the invoking processor's
  cached translation for it.\<close>

definition invlpg :: "vaddr_t \<Rightarrow> kstate \<Rightarrow> kstate" where
  "invlpg vaddr s = s\<lparr>flushed := flushed s @ [vaddr]\<rparr>"


section \<open>\<^verbatim>\<open>memset\<close>\<close>

text \<open>
  \<^verbatim>\<open>memset(buf, c, n)\<close>: \<^verbatim>\<open>for (size_t i = 0; i < n; i++) b[i] = (char) c;\<close>
\<close>

function memset_loop :: "ptr \<Rightarrow> int \<Rightarrow> nat \<Rightarrow> nat \<Rightarrow> kstate \<Rightarrow> unit res" where
  "memset_loop b c n i s =
     (if i < n then
        (case write8 (b + of_nat i) (word_of_int c) s of
           Inl f \<Rightarrow> Inl f
         | Inr (u, s') \<Rightarrow> memset_loop b c n (i + 1) s')
      else Inr ((), s))"
  by pat_completeness auto
termination
  by (relation "measure (\<lambda>(b, c, n, i, s). n - i)") auto

declare memset_loop.simps [simp del]

definition memset :: "ptr \<Rightarrow> int \<Rightarrow> nat \<Rightarrow> kstate \<Rightarrow> unit res" where
  "memset buf c n s = memset_loop buf c n 0 s"


section \<open>Entry codec\<close>

definition paging_set_flags :: "ptr \<Rightarrow> 64 word \<Rightarrow> kstate \<Rightarrow> unit res" where
  "paging_set_flags pentry flags s =
     (if flags AND PAGE_ADDR \<noteq> 0 then
        Inr ((), warning
          ''[paging_set_flags] illegal set flag attempt on page entry physical address.'' [] s)
      else
        (case read64 pentry s of
           Inl f \<Rightarrow> Inl f
         | Inr (e, s1) \<Rightarrow> write64 pentry (e OR flags) s1))"

definition paging_clear_flags :: "ptr \<Rightarrow> 64 word \<Rightarrow> kstate \<Rightarrow> unit res" where
  "paging_clear_flags pentry flags s =
     (if flags AND PAGE_ADDR \<noteq> 0 then
        Inr ((), warning
          ''[paging_clear_flags] illegal clear flag attempt on page entry physical address.''
          [] s)
      else
        (case read64 pentry s of
           Inl f \<Rightarrow> Inl f
         | Inr (e, s1) \<Rightarrow> write64 pentry (e AND NOT flags) s1))"

definition paging_check_flags :: "ptr \<Rightarrow> 64 word \<Rightarrow> kstate \<Rightarrow> bool res" where
  "paging_check_flags pentry flags s =
     (if flags AND PAGE_ADDR \<noteq> 0 then
        Inr (False, warning
          ''[paging_check_flags] illegal clear flag attempt on page entry physical address.''
          [] s)
      else
        (case read64 pentry s of
           Inl f \<Rightarrow> Inl f
         | Inr (e, s1) \<Rightarrow> Inr (e AND flags = flags, s1)))"

definition paging_set_paddr :: "ptr \<Rightarrow> paddr_t \<Rightarrow> kstate \<Rightarrow> unit res" where
  "paging_set_paddr pentry paddr s =
     (let (paddr1, s1) =
            (if paddr mod PAGE_SIZE \<noteq> 0 then
               (ALIGN_DOWN paddr PAGE_SIZE,
                warning ''[paging_set_addr] paddr is not 4 KiB aligned, paddr: %lx\<newline>''
                  [paddr] s)
             else (paddr, s))
      in case read64 pentry s1 of
           Inl f \<Rightarrow> Inl f
         | Inr (e, s2) \<Rightarrow>
             (case write64 pentry (e AND NOT PAGE_ADDR) s2 of
                Inl f \<Rightarrow> Inl f
              | Inr (u, s3) \<Rightarrow>
                  (case read64 pentry s3 of
                     Inl f \<Rightarrow> Inl f
                   | Inr (e', s4) \<Rightarrow> write64 pentry (e' OR (paddr1 AND PAGE_ADDR)) s4)))"

definition paging_get_paddr :: "ptr \<Rightarrow> kstate \<Rightarrow> paddr_t res" where
  "paging_get_paddr pentry s =
     (case read64 pentry s of
        Inl f \<Rightarrow> Inl f
      | Inr (e, s1) \<Rightarrow> Inr (e AND PAGE_ADDR, s1))"


section \<open>Address decomposer, table allocator, walker\<close>

definition paging_vaddr_idx :: "vaddr_t \<Rightarrow> nat \<Rightarrow> 64 word" where
  "paging_vaddr_idx vaddr level =
     drop_bit (PAGE_IDX_SIZE * level + PAGE_OFFSET_SIZE) vaddr AND PAGE_IDX_MASK"

definition paging_cr3 :: "kstate \<Rightarrow> ptr" where
  "paging_cr3 s = ALIGN_DOWN (cr3 s) PAGE_SIZE"

definition paging_create :: "kstate \<Rightarrow> ptr res" where
  "paging_create s =
     (let (ptable, s1) = pmm_alloc PMM_ZONE_NORMAL 1 s
      in case memset ptable 0 sizeof_ptable s1 of
           Inl f \<Rightarrow> Inl f
         | Inr (u, s2) \<Rightarrow> Inr (ptable, s2))"

text \<open>\<^verbatim>\<open>&curr_table->entries[idx]\<close>: the entries are the whole of a table.\<close>

definition entry_ptr :: "ptr \<Rightarrow> 64 word \<Rightarrow> ptr" where
  "entry_ptr table idx = table + sizeof_entry * idx"

text \<open>
  The loop of \<^verbatim>\<open>paging_walk\<close>, \<^verbatim>\<open>for (uint8_t i = PML4; i >= level; i--)\<close>, entered at
  level \<open>i\<close> with \<open>curr_table\<close>. Leaving the loop is the first branch.
\<close>

fun walk_loop :: "ptr \<Rightarrow> vaddr_t \<Rightarrow> nat \<Rightarrow> bool \<Rightarrow> nat \<Rightarrow> kstate \<Rightarrow> ptr res" where
  "walk_loop curr_table vaddr level create i s =
     (if \<not> level \<le> i then
        Inr (NULL, error
          ''[paging_walk] parsed entire page hiearchy and ended outside of loop.'' [] s)
      else
        let idx = paging_vaddr_idx vaddr i;
            pentry = entry_ptr curr_table idx
        in if i = level then Inr (pentry, s)
           else
             (case paging_check_flags pentry PAGE_PRESENT s of
                Inl f \<Rightarrow> Inl f
              | Inr (present, s1) \<Rightarrow>
                  if present then
                    (case paging_get_paddr pentry s1 of
                       Inl f \<Rightarrow> Inl f
                     | Inr (next_table, s2) \<Rightarrow>
                         walk_loop next_table vaddr level create (i - 1) s2)
                  else if create then
                    (case paging_create s1 of
                       Inl f \<Rightarrow> Inl f
                     | Inr (child_table, s2) \<Rightarrow>
                         (case paging_set_paddr pentry child_table s2 of
                            Inl f \<Rightarrow> Inl f
                          | Inr (u, s3) \<Rightarrow>
                              (case paging_set_flags pentry PAGE_PRESENT s3 of
                                 Inl f \<Rightarrow> Inl f
                               | Inr (u', s4) \<Rightarrow>
                                   walk_loop child_table vaddr level create (i - 1) s4)))
                  else
                    Inr (NULL, error
                      ''[paging_walk] A non-present entry was found at level %u for vaddr 0x%lx''
                      [of_nat level, vaddr] s1)))"

declare walk_loop.simps [simp del]

text \<open>The alignment check that opens \<^verbatim>\<open>paging_walk\<close>, \<^verbatim>\<open>__paging_map\<close> and
  \<^verbatim>\<open>__paging_unmap\<close>: warn and round down.\<close>

definition align_vaddr :: "vaddr_t \<Rightarrow> kstate \<Rightarrow> vaddr_t \<times> kstate" where
  "align_vaddr vaddr s =
     (if vaddr mod PAGE_SIZE \<noteq> 0 then
        (ALIGN_DOWN vaddr PAGE_SIZE,
         warning ''[paging_maps] vaddr is not 4 KiB aligned, vaddr: %lx\<newline>'' [vaddr] s)
      else (vaddr, s))"

definition align_paddr :: "paddr_t \<Rightarrow> kstate \<Rightarrow> paddr_t \<times> kstate" where
  "align_paddr paddr s =
     (if paddr mod PAGE_SIZE \<noteq> 0 then
        (ALIGN_DOWN paddr PAGE_SIZE,
         warning ''[paging_maps] paddr is not 4 KiB aligned, paddr: %lx\<newline>'' [paddr] s)
      else (paddr, s))"

definition paging_walk :: "ptr \<Rightarrow> vaddr_t \<Rightarrow> nat \<Rightarrow> bool \<Rightarrow> kstate \<Rightarrow> ptr res" where
  "paging_walk pml4_table vaddr level create s =
     (if pml4_table = NULL then
        Inr (NULL, error ''[paging_maps] pml4 table is null\<newline>'' [] s)
      else
        let (vaddr1, s1) = align_vaddr vaddr s
        in walk_loop pml4_table vaddr1 level create PML4 s1)"


section \<open>Mapping manager\<close>

text \<open>\<^verbatim>\<open>__paging_map\<close> (an Isabelle name cannot start with an underscore).\<close>

definition paging_map_root :: "ptr \<Rightarrow> vaddr_t \<Rightarrow> paddr_t \<Rightarrow> 64 word \<Rightarrow> kstate \<Rightarrow> unit res" where
  "paging_map_root pml4_table vaddr paddr flags s =
     (if pml4_table = NULL then
        Inr ((), error ''[paging_maps] pml4 table is null\<newline>'' [] s)
      else
        let (vaddr1, s1) = align_vaddr vaddr s;
            (paddr1, s2) = align_paddr paddr s1
        in case paging_walk pml4_table vaddr1 PML1 True s2 of
             Inl f \<Rightarrow> Inl f
           | Inr (pentry, s3) \<Rightarrow>
               (case paging_check_flags pentry PAGE_PRESENT s3 of
                  Inl f \<Rightarrow> Inl f
                | Inr (present, s4) \<Rightarrow>
                    if present then
                      (case paging_get_paddr pentry s4 of
                         Inl f \<Rightarrow> Inl f
                       | Inr (old_paddr, s5) \<Rightarrow>
                           Inr ((), error
                             ''[paging_map] request to map vaddr 0x%lx to paddr 0x%lx but vaddr was already mapped to %0xlx.''
                             [vaddr1, paddr1, old_paddr] s5))
                    else
                      (case paging_set_flags pentry flags s4 of
                         Inl f \<Rightarrow> Inl f
                       | Inr (u, s5) \<Rightarrow> paging_set_paddr pentry paddr1 s5)))"

text \<open>\<^verbatim>\<open>__paging_unmap\<close>.\<close>

definition paging_unmap_root :: "ptr \<Rightarrow> vaddr_t \<Rightarrow> kstate \<Rightarrow> unit res" where
  "paging_unmap_root pml4_table vaddr s =
     (if pml4_table = NULL then
        Inr ((), error ''[paging_maps] pml4 table is null\<newline>'' [] s)
      else
        let (vaddr1, s1) = align_vaddr vaddr s
        in case paging_walk pml4_table vaddr1 PML1 False s1 of
             Inl f \<Rightarrow> Inl f
           | Inr (pentry, s2) \<Rightarrow> write64 pentry 0 s2)"

definition paging_map :: "vaddr_t \<Rightarrow> paddr_t \<Rightarrow> 64 word \<Rightarrow> kstate \<Rightarrow> unit res" where
  "paging_map vaddr paddr flags s = paging_map_root (paging_cr3 s) vaddr paddr flags s"

definition paging_unmap :: "vaddr_t \<Rightarrow> kstate \<Rightarrow> unit res" where
  "paging_unmap vaddr s =
     (case paging_unmap_root (paging_cr3 s) vaddr s of
        Inl f \<Rightarrow> Inl f
      | Inr (u, s1) \<Rightarrow> Inr ((), invlpg vaddr s1))"


section \<open>Fault diagnostics\<close>

record cpu_state_t =
  error_code :: "64 word"

definition page_fault_intr_handler :: "cpu_state_t \<Rightarrow> kstate \<Rightarrow> unit res" where
  "page_fault_intr_handler regs s =
     (let s = log ''[page_fault_intr_handler] linear address that caused fault: 0x%lx\<newline>''
                [cr2 s] s;
          ec = error_code regs;
          s = log ''[page_fault_intr_handler] error code: 0x%lx\<newline>'' [error_code regs] s;
          s = (if ec AND PAGE_FAULT_P_MASK \<noteq> 0
               then log ''[page_fault_intr_handler] fault caused by page-level protection violation.\<newline>'' [] s
               else log ''[page_fault_intr_handler] fault caused by non-present page.\<newline>'' [] s);
          s = (if ec AND PAGE_FAULT_WR_MASK \<noteq> 0
               then log ''[page_fault_intr_handler] access was a write.\<newline>'' [] s
               else log ''[page_fault_intr_handler] access was read.\<newline>'' [] s);
          s = (if ec AND PAGE_FAULT_US_MASK \<noteq> 0
               then log ''[page_fault_intr_handler] user-mode access caused fault.\<newline>'' [] s
               else log ''[page_fault_intr_handler] supervisor-mode access caused fault\<newline>'' [] s);
          s = (if ec AND PAGE_FAULT_RSVD_MASK \<noteq> 0
               then log ''[page_fault_intr_handler] fault was caused by a reserved bit set to 1 in some paging-structure entry.\<newline>'' [] s
               else log ''[page_fault_intr_handler] fault was not caused by reserved bit violation\<newline>'' [] s);
          s = (if ec AND PAGE_FAULT_IF_MASK \<noteq> 0
               then log ''[page_fault_intr_handler] fault was caused by instruction fetch.\<newline>'' [] s
               else log ''[page_fault_intr_handler] fault was not caused by instruction fetch.\<newline>'' [] s);
          s = (if ec AND PAGE_FAULT_PK_MASK \<noteq> 0
               then log ''[page_fault_intr_handler] fault was caused by protection key violation.\<newline>'' [] s
               else log ''[page_fault_intr_handler] fault was not caused by protection key violation.\<newline>'' [] s);
          s = (if ec AND PAGE_FAULT_SGX_MASK \<noteq> 0
               then log ''[page_fault_intr_handler] fault resulted from violation of SGX-specific access-control requirements.\<newline>'' [] s
               else log ''[page_fault_intr_handler] fault was not SGX-related.\<newline>'' [] s)
      in panic ''[page_fault_intr_handler] A page fault occurred! Have fun debugging buddy.'' s)"


section \<open>Observations and example states\<close>

text \<open>The state without its diagnostic output, and the outcome of a call up to the
  diagnostic output.\<close>

definition machine :: "kstate \<Rightarrow> kstate" where
  "machine s = s\<lparr>out := []\<rparr>"

definition effect :: "'a res \<Rightarrow> 'a res" where
  "effect r =
     (case r of Inl (f, s) \<Rightarrow> Inl (f, machine s) | Inr (x, s) \<Rightarrow> Inr (x, machine s))"

text \<open>The state a call leaves, whether it returns or stops.\<close>

definition res_state :: "'a res \<Rightarrow> kstate" where
  "res_state r = (case r of Inl (f, s) \<Rightarrow> s | Inr (x, s) \<Rightarrow> s)"

text \<open>The present flag of the entry at \<open>p\<close>, as \<^verbatim>\<open>paging_check_flags\<close> reads it.\<close>

definition present_at :: "memory \<Rightarrow> ptr \<Rightarrow> bool" where
  "present_at m p = (load64 m p AND PAGE_PRESENT = PAGE_PRESENT)"

definition zero_mem :: memory where
  "zero_mem = (\<lambda>a. 0)"

definition boot_state :: "memory \<Rightarrow> paddr_t list \<Rightarrow> kstate" where
  "boot_state m fs = \<lparr>mem = m, frames = fs, out = [], cr2 = 0, cr3 = 0x1000, flushed = []\<rparr>"

text \<open>A root table at \<open>0x1000\<close> whose hierarchy reaches the leaf table at \<open>0x4000\<close> for
  the virtual page \<open>0x400000\<close> (indices 0, 0, 2, 0 from the top level down); the leaf
  entry itself is zero.\<close>

definition four_level_mem :: memory where
  "four_level_mem =
     store64 (store64 (store64 zero_mem 0x1000 0x2001) 0x2000 0x3001) 0x3010 0x4001"

text \<open>The same hierarchy with the leaf entry of \<open>0x400000\<close> mapping it to the frame
  \<open>0x100000\<close>, present and writable.\<close>

definition mapped_mem :: memory where
  "mapped_mem = store64 four_level_mem 0x4000 0x100003"


section \<open>Memory lemmas\<close>

lemma bit_byte_of:
  "bit (push_bit k (ucast (byte_of v i) :: 64 word)) n \<longleftrightarrow>
     k \<le> n \<and> n < k + 8 \<and> n < 64 \<and> bit v (8 * i + (n - k))"
  unfolding byte_of_def by (auto simp add: bit_simps)

lemma bit_byte_of0:
  "bit (ucast (byte_of v 0) :: 64 word) n \<longleftrightarrow> n < 8 \<and> bit v n"
  unfolding byte_of_def by (auto simp add: bit_simps)

lemma bytes_join:
  fixes v :: "64 word"
  shows "ucast (byte_of v 0) OR push_bit 8 (ucast (byte_of v 1)) OR push_bit 16 (ucast (byte_of v 2))
     OR push_bit 24 (ucast (byte_of v 3)) OR push_bit 32 (ucast (byte_of v 4))
     OR push_bit 40 (ucast (byte_of v 5)) OR push_bit 48 (ucast (byte_of v 6))
     OR push_bit 56 (ucast (byte_of v 7)) = v" (is "?lhs = v")
proof (rule bit_word_eqI)
  fix n :: nat
  assume n: "n < LENGTH(64)"
  have *: "n < 8 \<or> (8 \<le> n \<and> n < 16) \<or> (16 \<le> n \<and> n < 24) \<or> (24 \<le> n \<and> n < 32)
     \<or> (32 \<le> n \<and> n < 40) \<or> (40 \<le> n \<and> n < 48) \<or> (48 \<le> n \<and> n < 56) \<or> (56 \<le> n \<and> n < 64)"
    using n by simp arith
  have "bit ?lhs n = (n < 8 \<and> bit v n \<or> (8 \<le> n \<and> n < 8 + 8 \<and> n < 64 \<and> bit v (8 * 1 + (n - 8)))
     \<or> (16 \<le> n \<and> n < 16 + 8 \<and> n < 64 \<and> bit v (8 * 2 + (n - 16)))
     \<or> (24 \<le> n \<and> n < 24 + 8 \<and> n < 64 \<and> bit v (8 * 3 + (n - 24)))
     \<or> (32 \<le> n \<and> n < 32 + 8 \<and> n < 64 \<and> bit v (8 * 4 + (n - 32)))
     \<or> (40 \<le> n \<and> n < 40 + 8 \<and> n < 64 \<and> bit v (8 * 5 + (n - 40)))
     \<or> (48 \<le> n \<and> n < 48 + 8 \<and> n < 64 \<and> bit v (8 * 6 + (n - 48)))
     \<or> (56 \<le> n \<and> n < 56 + 8 \<and> n < 64 \<and> bit v (8 * 7 + (n - 56))))"
    by (simp only: bit_or_iff bit_byte_of bit_byte_of0)
  also have "\<dots> = bit v n"
    using * by (elim disjE) simp_all
  finally show "bit ?lhs n = bit v n" .
qed

lemma store64_bytes:
  "store64 m a v a = byte_of v 0"
  "store64 m a v (a + 1) = byte_of v 1"
  "store64 m a v (a + 2) = byte_of v 2"
  "store64 m a v (a + 3) = byte_of v 3"
  "store64 m a v (a + 4) = byte_of v 4"
  "store64 m a v (a + 5) = byte_of v 5"
  "store64 m a v (a + 6) = byte_of v 6"
  "store64 m a v (a + 7) = byte_of v 7"
  unfolding store64_def by simp_all

lemma load64_store64_same: "load64 (store64 m a v) a = v"
  unfolding load64_def store64_bytes by (rule bytes_join)

lemma aligned_unat:
  fixes a :: "64 word"
  assumes "take_bit 3 a = 0"
  shows "8 dvd unat a"
  using assms and_mask_dvd_nat[of 3 a] by (simp add: take_bit_eq_mask)

lemma aligned_add_unat:
  fixes a :: "64 word"
  assumes "take_bit 3 a = 0" "i < 8"
  shows "unat (a + of_nat i) = unat a + i"
proof -
  have d: "8 dvd unat a" using assms(1) by (rule aligned_unat)
  have lt: "unat a < 2 ^ 64" using unsigned_less[of a, where 'a=nat] by simp
  from d lt have "unat a + 8 \<le> 2 ^ 64" by (simp add: dvd_def) presburger
  then have "unat a + i < 2 ^ 64" using assms(2) by simp
  then show ?thesis
    using assms(2) by (simp add: unat_word_ariths unat_of_nat take_bit_nat_eq_self)
qed

lemma aligned_bytes_distinct:
  fixes a b :: "64 word"
  assumes "take_bit 3 a = 0" "take_bit 3 b = 0" "a \<noteq> b" "i < 8" "j < 8"
  shows "a + of_nat i \<noteq> b + of_nat j"
proof
  assume eq: "a + of_nat i = b + of_nat j"
  have "unat a + i = unat b + j"
    using arg_cong[OF eq, of unat] assms by (simp add: aligned_add_unat)
  moreover have "8 dvd unat a" "8 dvd unat b" using assms by (simp_all add: aligned_unat)
  ultimately have "unat a = unat b" using assms(4,5) by presburger
  then show False using assms(3) by (simp add: word_unat_eq_iff)
qed


lemma store64_other:
  assumes "\<And>k. k < 8 \<Longrightarrow> x \<noteq> a + of_nat k"
  shows "store64 m a v x = m x"
  using assms[of 0] assms[of 1] assms[of 2] assms[of 3] assms[of 4] assms[of 5] assms[of 6]
    assms[of 7]
  unfolding store64_def by simp

lemma load64_cong:
  assumes "\<And>k. k < 8 \<Longrightarrow> m' (b + of_nat k) = m (b + of_nat k)"
  shows "load64 m' b = load64 m b"
  using assms[of 0] assms[of 1] assms[of 2] assms[of 3] assms[of 4] assms[of 5] assms[of 6]
    assms[of 7]
  unfolding load64_def by simp

lemma load64_store64_other:
  assumes "take_bit 3 a = 0" "take_bit 3 b = 0" "a \<noteq> b"
  shows "load64 (store64 m a v) b = load64 m b"
proof (rule load64_cong)
  fix k :: nat
  assume k: "k < 8"
  show "store64 m a v (b + of_nat k) = m (b + of_nat k)"
  proof (rule store64_other)
    fix j :: nat
    assume "j < 8"
    then show "b + of_nat k \<noteq> a + of_nat j"
      using aligned_bytes_distinct[OF assms(2) assms(1) _ k, of j] assms(3) by auto
  qed
qed

lemma store64_store64: "store64 (store64 m a v) a w = store64 m a w"
  unfolding store64_def by (rule ext) simp

section \<open>Entry codec lemmas\<close>

lemma present_not_addr: "PAGE_PRESENT AND PAGE_ADDR = 0"
  by (simp add: PAGE_PRESENT_def PAGE_ADDR_def)

lemma emit_fields [simp]:
  "mem (emit l f a s) = mem s" "frames (emit l f a s) = frames s"
  "cr2 (emit l f a s) = cr2 s" "cr3 (emit l f a s) = cr3 s"
  "flushed (emit l f a s) = flushed s" "out (emit l f a s) = out s @ [(l, f, a)]"
  by (simp_all add: emit_def)

lemma or_and_disjoint:
  fixes e f a :: "64 word"
  assumes "f AND a = 0"
  shows "(e OR f) AND a = e AND a"
  by (simp add: bit.conj_disj_distrib2 assms)

lemma andnot_and_disjoint:
  fixes e f a :: "64 word"
  assumes "f AND a = 0"
  shows "(e AND NOT f) AND a = e AND a"
proof (rule bit_word_eqI)
  fix n :: nat
  assume n: "n < LENGTH(64)"
  have "\<not> (bit f n \<and> bit a n)"
    using arg_cong[OF assms, of "\<lambda>w. bit w n"] by (simp add: bit_and_iff)
  then show "bit ((e AND NOT f) AND a) n = bit (e AND a) n"
    using n by (auto simp add: bit_simps)
qed

lemma field_replace:
  fixes e p a :: "64 word"
  shows "((e AND NOT a) OR (p AND a)) AND NOT a = e AND NOT a"
    and "((e AND NOT a) OR (p AND a)) AND a = p AND a"
  by (rule bit_word_eqI; auto simp add: bit_simps)+

lemma paging_set_flags_ok:
  assumes "pentry \<noteq> NULL" "flags AND PAGE_ADDR = 0"
  shows "paging_set_flags pentry flags s =
     Inr ((), s\<lparr>mem := store64 (mem s) pentry (load64 (mem s) pentry OR flags)\<rparr>)"
  using assms by (simp add: paging_set_flags_def read64_def write64_def)

lemma paging_clear_flags_ok:
  assumes "pentry \<noteq> NULL" "flags AND PAGE_ADDR = 0"
  shows "paging_clear_flags pentry flags s =
     Inr ((), s\<lparr>mem := store64 (mem s) pentry (load64 (mem s) pentry AND NOT flags)\<rparr>)"
  using assms by (simp add: paging_clear_flags_def read64_def write64_def)

lemma page_mod: "x mod PAGE_SIZE = take_bit 12 x"
proof -
  have "PAGE_SIZE = 2 ^ 12" by (simp add: PAGE_SIZE_def)
  then show ?thesis by (simp add: take_bit_eq_mod)
qed

lemma align_down_page: "ALIGN_DOWN x PAGE_SIZE = x AND NOT (mask 12)"
proof -
  have "PAGE_SIZE - 1 = mask 12" by (simp add: PAGE_SIZE_def mask_eq_exp_minus_1)
  then show ?thesis by (simp add: ALIGN_DOWN_def)
qed

lemma align_down_idem:
  assumes "paddr mod PAGE_SIZE = 0"
  shows "ALIGN_DOWN paddr PAGE_SIZE = paddr"
proof -
  have z: "take_bit 12 paddr = 0" using assms by (simp add: page_mod)
  show ?thesis
    unfolding align_down_page
  proof (rule bit_word_eqI)
    fix n :: nat
    assume n: "n < LENGTH(64)"
    have "n < 12 \<Longrightarrow> \<not> bit paddr n"
      using arg_cong[OF z, of "\<lambda>w. bit w n"] by (simp add: bit_take_bit_iff)
    then show "bit (paddr AND NOT (mask 12)) n = bit paddr n"
      using n by (auto simp add: bit_simps)
  qed
qed

lemma paging_set_paddr_ok:
  assumes "pentry \<noteq> NULL"
  shows "paging_set_paddr pentry paddr s =
     Inr ((), (if paddr mod PAGE_SIZE \<noteq> 0
               then warning ''[paging_set_addr] paddr is not 4 KiB aligned, paddr: %lx\<newline>'' [paddr] s
               else s)\<lparr>mem := store64 (mem s) pentry
        ((load64 (mem s) pentry AND NOT PAGE_ADDR) OR (ALIGN_DOWN paddr PAGE_SIZE AND PAGE_ADDR))\<rparr>)"
  using assms
  by (simp add: paging_set_paddr_def read64_def write64_def warning_def load64_store64_same
      store64_store64 align_down_idem)


lemma memset_zero8:
  assumes "\<And>k. k < 8 \<Longrightarrow> b + of_nat k \<noteq> NULL"
  shows "memset b 0 8 s = Inr ((), s\<lparr>mem := store64 (mem s) b 0\<rparr>)"
  using assms[of 0] assms[of 1] assms[of 2] assms[of 3] assms[of 4] assms[of 5] assms[of 6]
    assms[of 7]
  by (simp add: memset_def memset_loop.simps write8_def store64_def byte_of_def)

lemma aligned_bytes_not_null:
  assumes "take_bit 3 b = 0" "b \<noteq> NULL" "k < 8"
  shows "b + of_nat k \<noteq> NULL"
  using aligned_bytes_distinct[of b 0 k 0] assms by (simp add: NULL_def)

lemma paging_create_eq:
  assumes "frames s = f # fs" "take_bit 3 f = 0" "f \<noteq> NULL"
  shows "paging_create s = Inr (f, s\<lparr>frames := fs, mem := store64 (mem s) f 0\<rparr>)"
  using assms
  by (simp add: paging_create_def pmm_alloc_def sizeof_ptable_def memset_zero8
      aligned_bytes_not_null)

section \<open>Flag and address fields\<close>

text \<open>
  C5. On a non-null entry pointer, \<^verbatim>\<open>paging_set_flags\<close> and \<^verbatim>\<open>paging_clear_flags\<close>
  return and leave the address bits of the entry as they were, for every mask; with a mask
  that overlaps the address bits they leave memory unchanged and \<^verbatim>\<open>paging_check_flags\<close>
  returns false; \<^verbatim>\<open>paging_set_paddr\<close> leaves every bit outside the address field as it
  was and sets the address field to the one of the address rounded down to its page.
\<close>

theorem flag_address_isolation:
  assumes "pentry \<noteq> NULL"
  shows "(\<exists>s'. paging_set_flags pentry flags s = Inr ((), s') \<and>
            load64 (mem s') pentry AND PAGE_ADDR = load64 (mem s) pentry AND PAGE_ADDR)
       \<and> (\<exists>s'. paging_clear_flags pentry flags s = Inr ((), s') \<and>
            load64 (mem s') pentry AND PAGE_ADDR = load64 (mem s) pentry AND PAGE_ADDR)
       \<and> (flags AND PAGE_ADDR \<noteq> 0 \<longrightarrow>
            (\<exists>s'. paging_set_flags pentry flags s = Inr ((), s') \<and> mem s' = mem s)
          \<and> (\<exists>s'. paging_clear_flags pentry flags s = Inr ((), s') \<and> mem s' = mem s)
          \<and> (\<exists>s'. paging_check_flags pentry flags s = Inr (False, s') \<and> mem s' = mem s))
       \<and> (\<exists>s'. paging_set_paddr pentry paddr s = Inr ((), s') \<and>
            load64 (mem s') pentry AND NOT PAGE_ADDR = load64 (mem s) pentry AND NOT PAGE_ADDR \<and>
            load64 (mem s') pentry AND PAGE_ADDR = ALIGN_DOWN paddr PAGE_SIZE AND PAGE_ADDR)"
proof (intro conjI impI)
  show "\<exists>s'. paging_set_flags pentry flags s = Inr ((), s') \<and>
      load64 (mem s') pentry AND PAGE_ADDR = load64 (mem s) pentry AND PAGE_ADDR"
  proof (cases "flags AND PAGE_ADDR = 0")
    case True
    then show ?thesis
      using assms by (simp add: paging_set_flags_ok load64_store64_same or_and_disjoint)
  next
    case False
    then show ?thesis by (simp add: paging_set_flags_def warning_def)
  qed
  show "\<exists>s'. paging_clear_flags pentry flags s = Inr ((), s') \<and>
      load64 (mem s') pentry AND PAGE_ADDR = load64 (mem s) pentry AND PAGE_ADDR"
  proof (cases "flags AND PAGE_ADDR = 0")
    case True
    then show ?thesis
      using assms by (simp add: paging_clear_flags_ok load64_store64_same andnot_and_disjoint)
  next
    case False
    then show ?thesis by (simp add: paging_clear_flags_def warning_def)
  qed
  show "\<exists>s'. paging_set_paddr pentry paddr s = Inr ((), s') \<and>
      load64 (mem s') pentry AND NOT PAGE_ADDR = load64 (mem s) pentry AND NOT PAGE_ADDR \<and>
      load64 (mem s') pentry AND PAGE_ADDR = ALIGN_DOWN paddr PAGE_SIZE AND PAGE_ADDR"
    using assms by (simp add: paging_set_paddr_ok load64_store64_same field_replace)
next
  assume "flags AND PAGE_ADDR \<noteq> 0"
  then show "\<exists>s'. paging_set_flags pentry flags s = Inr ((), s') \<and> mem s' = mem s"
    and "\<exists>s'. paging_clear_flags pentry flags s = Inr ((), s') \<and> mem s' = mem s"
    and "\<exists>s'. paging_check_flags pentry flags s = Inr (False, s') \<and> mem s' = mem s"
    by (simp_all add: paging_set_flags_def paging_clear_flags_def paging_check_flags_def
        warning_def)
qed

theorem flag_address_isolation_witness:
  "(0x4000 :: 64 word) \<noteq> NULL \<and> (0x1003 :: 64 word) AND PAGE_ADDR \<noteq> 0
   \<and> (\<exists>s'. paging_set_flags 0x4000 0x1003 (boot_state four_level_mem []) = Inr ((), s') \<and>
          mem s' = four_level_mem)
   \<and> (\<exists>s'. paging_check_flags 0x4000 0x1003 (boot_state four_level_mem []) = Inr (False, s') \<and>
          mem s' = four_level_mem)
   \<and> (\<exists>s'. paging_set_paddr 0x4000 0x5123 (boot_state four_level_mem []) = Inr ((), s') \<and>
          load64 (mem s') 0x4000 AND NOT PAGE_ADDR = load64 four_level_mem 0x4000 AND NOT PAGE_ADDR \<and>
          load64 (mem s') 0x4000 AND PAGE_ADDR = ALIGN_DOWN 0x5123 PAGE_SIZE AND PAGE_ADDR)"
proof -
  have h: "(0x4000 :: 64 word) \<noteq> NULL" by (simp add: NULL_def)
  have o: "(0x1003 :: 64 word) AND PAGE_ADDR \<noteq> 0" by (simp add: PAGE_ADDR_def)
  have m: "mem (boot_state four_level_mem []) = four_level_mem" by (simp add: boot_state_def)
  show ?thesis
    using flag_address_isolation[OF h, of "0x1003" "boot_state four_level_mem []" "0x5123"] h o
    unfolding m by blast
qed

section \<open>Null root table\<close>

text \<open>
  C7. With a null root table, \<^verbatim>\<open>paging_walk\<close> returns the null pointer and
  \<^verbatim>\<open>__paging_map\<close> and \<^verbatim>\<open>__paging_unmap\<close> return; each only adds the error line to
  the diagnostic output, so memory, the allocator, the control registers and the
  invalidations are the ones of the state before the call, for every virtual address,
  physical address, flags, level and create mode.
\<close>

theorem null_root_aborts:
  "paging_walk NULL vaddr level create s =
     Inr (NULL, s\<lparr>out := out s @ [(Error, ''[paging_maps] pml4 table is null\<newline>'', [])]\<rparr>)
   \<and> paging_map_root NULL vaddr paddr flags s =
     Inr ((), s\<lparr>out := out s @ [(Error, ''[paging_maps] pml4 table is null\<newline>'', [])]\<rparr>)
   \<and> paging_unmap_root NULL vaddr s =
     Inr ((), s\<lparr>out := out s @ [(Error, ''[paging_maps] pml4 table is null\<newline>'', [])]\<rparr>)"
  by (simp add: paging_walk_def paging_map_root_def paging_unmap_root_def error_def emit_def)

section \<open>The page-fault report\<close>

lemma mask_bit: "(ec AND push_bit k 1 \<noteq> 0) = bit ec k" for ec :: "64 word"
  by (simp add: bit_iff_and_push_bit_not_eq_0)

lemma if_log: "(if c then log a args s else log b args s) = log (if c then a else b) args s"
  by simp

lemma log_emit: "log f a s = s\<lparr>out := out s @ [(Info, f, a)]\<rparr>"
  by (simp add: log_def emit_def)

lemma emit_emit: "s\<lparr>out := xs\<rparr>\<lparr>out := ys\<rparr> = s\<lparr>out := ys\<rparr>" "out (s\<lparr>out := xs\<rparr>) = xs"
  by simp_all

text \<open>
  C9. For every error code the page-fault handler logs the faulting address, the error
  code, and then exactly one line for each of the seven bits (P, W/R, U/S, RSVD, I/D, PK,
  SGX), in this order, each chosen by that bit of the error code alone; it then ends in
  \<^verbatim>\<open>panic\<close> and never returns.
\<close>

theorem page_fault_report:
  "page_fault_intr_handler regs s =
     Inl (Panic ''[page_fault_intr_handler] A page fault occurred! Have fun debugging buddy.'',
          s\<lparr>out := out s @
            [(Info, ''[page_fault_intr_handler] linear address that caused fault: 0x%lx\<newline>'', [cr2 s]),
             (Info, ''[page_fault_intr_handler] error code: 0x%lx\<newline>'', [error_code regs]),
             (Info, if bit (error_code regs) 0
                    then ''[page_fault_intr_handler] fault caused by page-level protection violation.\<newline>''
                    else ''[page_fault_intr_handler] fault caused by non-present page.\<newline>'', []),
             (Info, if bit (error_code regs) 1
                    then ''[page_fault_intr_handler] access was a write.\<newline>''
                    else ''[page_fault_intr_handler] access was read.\<newline>'', []),
             (Info, if bit (error_code regs) 2
                    then ''[page_fault_intr_handler] user-mode access caused fault.\<newline>''
                    else ''[page_fault_intr_handler] supervisor-mode access caused fault\<newline>'', []),
             (Info, if bit (error_code regs) 3
                    then ''[page_fault_intr_handler] fault was caused by a reserved bit set to 1 in some paging-structure entry.\<newline>''
                    else ''[page_fault_intr_handler] fault was not caused by reserved bit violation\<newline>'', []),
             (Info, if bit (error_code regs) 4
                    then ''[page_fault_intr_handler] fault was caused by instruction fetch.\<newline>''
                    else ''[page_fault_intr_handler] fault was not caused by instruction fetch.\<newline>'', []),
             (Info, if bit (error_code regs) 5
                    then ''[page_fault_intr_handler] fault was caused by protection key violation.\<newline>''
                    else ''[page_fault_intr_handler] fault was not caused by protection key violation.\<newline>'', []),
             (Info, if bit (error_code regs) 15
                    then ''[page_fault_intr_handler] fault resulted from violation of SGX-specific access-control requirements.\<newline>''
                    else ''[page_fault_intr_handler] fault was not SGX-related.\<newline>'', [])]\<rparr>)"
  unfolding page_fault_intr_handler_def Let_def panic_def
    PAGE_FAULT_P_MASK_def PAGE_FAULT_WR_MASK_def PAGE_FAULT_US_MASK_def PAGE_FAULT_RSVD_MASK_def
    PAGE_FAULT_IF_MASK_def PAGE_FAULT_PK_MASK_def PAGE_FAULT_SGX_MASK_def mask_bit if_log
  by (simp only: log_emit emit_emit append.simps append_assoc)

section \<open>The walk as a lookup\<close>

lemma paging_check_flags_present:
  "paging_check_flags p PAGE_PRESENT s =
     (if p = NULL then Inl (NullDeref, s) else Inr (present_at (mem s) p, s))"
  by (simp add: paging_check_flags_def read64_def present_not_addr present_at_def)

lemma paging_get_paddr_eq:
  "paging_get_paddr p s =
     (if p = NULL then Inl (NullDeref, s) else Inr (load64 (mem s) p AND PAGE_ADDR, s))"
  by (simp add: paging_get_paddr_def read64_def)

lemma walk_loop_lookup:
  "walk_loop c v l False i s =
     (if \<not> l \<le> i then
        Inr (NULL, error
          ''[paging_walk] parsed entire page hiearchy and ended outside of loop.'' [] s)
      else if i = l then Inr (entry_ptr c (paging_vaddr_idx v i), s)
      else if entry_ptr c (paging_vaddr_idx v i) = NULL then Inl (NullDeref, s)
      else if present_at (mem s) (entry_ptr c (paging_vaddr_idx v i)) then
        walk_loop (load64 (mem s) (entry_ptr c (paging_vaddr_idx v i)) AND PAGE_ADDR)
          v l False (i - 1) s
      else Inr (NULL, error
             ''[paging_walk] A non-present entry was found at level %u for vaddr 0x%lx''
             [of_nat l, v] s))"
  by (subst walk_loop.simps)
    (simp add: Let_def paging_check_flags_present paging_get_paddr_eq)

lemma walk_loop_present_step:
  assumes "l \<le> i" "i \<noteq> l" "entry_ptr c (paging_vaddr_idx v i) \<noteq> NULL"
    "present_at (mem s) (entry_ptr c (paging_vaddr_idx v i))"
  shows "walk_loop c v l cr i s =
     walk_loop (load64 (mem s) (entry_ptr c (paging_vaddr_idx v i)) AND PAGE_ADDR) v l cr (i - 1) s"
  using assms
  by (subst walk_loop.simps)
    (simp add: Let_def paging_check_flags_present paging_get_paddr_eq)

lemma walk_loop_lookup_create:
  assumes "walk_loop c v l False i s = Inr (p, s')" "p \<noteq> NULL"
  shows "s' = s \<and> walk_loop c v l True i s = Inr (p, s)"
  using assms
proof (induction i arbitrary: c)
  case 0
  then show ?case
    by (subst walk_loop.simps, subst (asm) walk_loop_lookup) (auto split: if_splits)
next
  case (Suc i)
  let ?q = "entry_ptr c (paging_vaddr_idx v (Suc i))"
  note eq = Suc.prems(1)[unfolded walk_loop_lookup[of c v l "Suc i" s]]
  show ?case
  proof (cases "l \<le> Suc i \<and> Suc i \<noteq> l")
    case False
    then show ?thesis
      using eq Suc.prems(2) by (subst walk_loop.simps) (auto split: if_splits)
  next
    case True
    then have q: "?q \<noteq> NULL" "present_at (mem s) ?q"
      and rec: "walk_loop (load64 (mem s) ?q AND PAGE_ADDR) v l False i s = Inr (p, s')"
      using eq Suc.prems(2) by (auto split: if_splits)
    from Suc.IH[OF rec Suc.prems(2)] True q show ?thesis
      by (simp add: walk_loop_present_step)
  qed
qed


lemma entry_ptr_aligned:
  assumes "take_bit 3 c = 0"
  shows "take_bit 3 (entry_ptr c idx) = 0"
proof -
  have c: "c = push_bit 3 (drop_bit 3 c)"
    using bits_ident[of 3 c] assms by simp
  have "c + 8 * idx = push_bit 3 (drop_bit 3 c + idx)"
    by (subst c) (simp add: push_bit_eq_mult distrib_left)
  then have "take_bit 3 (c + 8 * idx) = 0"
    by (simp only: take_bit_push_bit) simp
  then show ?thesis by (simp only: entry_ptr_def sizeof_entry_def)
qed

lemma page_addr_aligned: "take_bit 3 (e AND PAGE_ADDR) = 0"
proof -
  have "take_bit 3 PAGE_ADDR = 0" by (simp add: PAGE_ADDR_def)
  then show ?thesis by (simp add: take_bit_and)
qed

lemma walk_loop_lookup_aligned:
  assumes "take_bit 3 c = 0" "walk_loop c v l False i s = Inr (p, s')"
  shows "take_bit 3 p = 0"
  using assms
proof (induction i arbitrary: c)
  case 0
  then show ?case
    by (subst (asm) walk_loop_lookup) (auto split: if_splits simp: entry_ptr_aligned NULL_def)
next
  case (Suc i)
  let ?q = "entry_ptr c (paging_vaddr_idx v (Suc i))"
  note eq = Suc.prems(2)[unfolded walk_loop_lookup[of c v l "Suc i" s]]
  show ?case
  proof (cases "l \<le> Suc i \<and> Suc i \<noteq> l \<and> ?q \<noteq> NULL \<and> present_at (mem s) ?q")
    case False
    then show ?thesis
      using eq Suc.prems(1) by (auto split: if_splits simp: entry_ptr_aligned NULL_def)
  next
    case True
    then have rec: "walk_loop (load64 (mem s) ?q AND PAGE_ADDR) v l False i s = Inr (p, s')"
      using eq by (auto split: if_splits)
    from Suc.IH[OF page_addr_aligned rec] show ?thesis .
  qed
qed

lemma walk_loop_lookup_frame:
  assumes "take_bit 3 c = 0" "walk_loop c v l False i s = Inr (p, s)" "p \<noteq> NULL"
    "\<not> present_at (mem s) p"
  shows "walk_loop c v l False i (s\<lparr>mem := store64 (mem s) p w\<rparr>) =
     Inr (p, s\<lparr>mem := store64 (mem s) p w\<rparr>)"
  using assms(1,2)
proof (induction i arbitrary: c)
  case 0
  then show ?case
    using assms(3)
    by (subst walk_loop_lookup, subst (asm) walk_loop_lookup) (auto split: if_splits)
next
  case (Suc i)
  let ?q = "entry_ptr c (paging_vaddr_idx v (Suc i))"
  let ?s = "s\<lparr>mem := store64 (mem s) p w\<rparr>"
  note eq = Suc.prems(2)[unfolded walk_loop_lookup[of c v l "Suc i" s]]
  show ?case
  proof (cases "l \<le> Suc i \<and> Suc i \<noteq> l")
    case False
    then show ?thesis
      using eq assms(3) by (subst walk_loop_lookup) (auto split: if_splits)
  next
    case True
    then have q: "?q \<noteq> NULL" "present_at (mem s) ?q"
      and rec: "walk_loop (load64 (mem s) ?q AND PAGE_ADDR) v l False i s = Inr (p, s)"
      using eq assms(3) by (auto split: if_splits)
    have pa: "take_bit 3 p = 0"
      by (rule walk_loop_lookup_aligned[OF Suc.prems(1) Suc.prems(2)])
    have qa: "take_bit 3 ?q = 0"
      by (rule entry_ptr_aligned[OF Suc.prems(1)])
    have ne: "p \<noteq> ?q" using q(2) assms(4) by auto
    have same: "load64 (mem ?s) ?q = load64 (mem s) ?q"
      using load64_store64_other[OF pa qa ne] by simp
    have "walk_loop c v l False (Suc i) ?s =
        walk_loop (load64 (mem s) ?q AND PAGE_ADDR) v l False i ?s"
      using True q same by (simp add: walk_loop_present_step present_at_def)
    also have "\<dots> = Inr (p, ?s)"
      by (rule Suc.IH[OF page_addr_aligned rec])
    finally show ?thesis .
  qed
qed

lemma align_vaddr_aligned:
  "vaddr mod PAGE_SIZE = 0 \<Longrightarrow> align_vaddr vaddr s = (vaddr, s)"
  by (simp add: align_vaddr_def)

lemma align_paddr_aligned:
  "paddr mod PAGE_SIZE = 0 \<Longrightarrow> align_paddr paddr s = (paddr, s)"
  by (simp add: align_paddr_def)

lemma paging_walk_aligned:
  assumes "root \<noteq> NULL" "vaddr mod PAGE_SIZE = 0"
  shows "paging_walk root vaddr l cr s = walk_loop root vaddr l cr PML4 s"
  using assms by (simp add: paging_walk_def align_vaddr_aligned)

lemma paging_map_root_aligned:
  assumes "root \<noteq> NULL" "vaddr mod PAGE_SIZE = 0" "paddr mod PAGE_SIZE = 0"
    "walk_loop root vaddr PML1 True PML4 s = Inr (p, s1)" "p \<noteq> NULL"
  shows "paging_map_root root vaddr paddr flags s =
     (if present_at (mem s1) p then
        Inr ((), error
          ''[paging_map] request to map vaddr 0x%lx to paddr 0x%lx but vaddr was already mapped to %0xlx.''
          [vaddr, paddr, load64 (mem s1) p AND PAGE_ADDR] s1)
      else
        (case paging_set_flags p flags s1 of
           Inl f \<Rightarrow> Inl f
         | Inr (u, s2) \<Rightarrow> paging_set_paddr p paddr s2))"
  using assms
  by (simp add: paging_map_root_def align_vaddr_aligned align_paddr_aligned paging_walk_aligned
      paging_check_flags_present paging_get_paddr_eq)

lemma paging_unmap_root_aligned:
  assumes "root \<noteq> NULL" "vaddr mod PAGE_SIZE = 0"
  shows "paging_unmap_root root vaddr s =
     (case walk_loop root vaddr PML1 False PML4 s of
        Inl f \<Rightarrow> Inl f
      | Inr (p, s1) \<Rightarrow> write64 p 0 s1)"
  using assms
  by (simp add: paging_unmap_root_def align_vaddr_aligned paging_walk_aligned)

section \<open>Mapping into a resolved leaf entry\<close>

lemma present_kept:
  fixes e f x :: "64 word"
  assumes "f AND PAGE_PRESENT = PAGE_PRESENT"
  shows "(((e OR f) AND NOT PAGE_ADDR) OR x) AND PAGE_PRESENT = PAGE_PRESENT"
proof (rule bit_word_eqI)
  fix n :: nat
  assume n: "n < LENGTH(64)"
  have p: "bit PAGE_PRESENT n \<longleftrightarrow> n = 0"
    by (simp add: PAGE_PRESENT_def bit_1_iff)
  have a: "\<not> bit PAGE_ADDR 0"
    by (simp add: PAGE_ADDR_def)
  have p0: "bit PAGE_PRESENT 0"
    by (simp add: PAGE_PRESENT_def)
  have f: "bit f 0"
    using arg_cong[OF assms, of "\<lambda>w. bit w 0"] p0 by (simp add: bit_and_iff)
  show "bit ((((e OR f) AND NOT PAGE_ADDR) OR x) AND PAGE_PRESENT) n = bit PAGE_PRESENT n"
    using n a f by (auto simp add: bit_and_iff bit_or_iff bit_not_iff p)
qed

lemma map_fresh:
  assumes "root \<noteq> NULL" "vaddr mod PAGE_SIZE = 0" "paddr mod PAGE_SIZE = 0"
    "walk_loop root vaddr PML1 False PML4 s = Inr (p, s')" "p \<noteq> NULL"
    "\<not> present_at (mem s) p" "flags AND PAGE_ADDR = 0"
  shows "paging_map_root root vaddr paddr flags s =
     Inr ((), s\<lparr>mem := store64 (mem s) p
        (((load64 (mem s) p OR flags) AND NOT PAGE_ADDR) OR (paddr AND PAGE_ADDR))\<rparr>)"
proof -
  have w: "s' = s" "walk_loop root vaddr PML1 True PML4 s = Inr (p, s)"
    using walk_loop_lookup_create[OF assms(4,5)] by simp_all
  show ?thesis
    using assms(5,6,7)
    by (simp add: paging_map_root_aligned[OF assms(1,2,3) w(2) assms(5)] paging_set_flags_ok
        paging_set_paddr_ok assms(3) load64_store64_same store64_store64 align_down_idem)
qed

lemma map_conflict:
  assumes "root \<noteq> NULL" "vaddr mod PAGE_SIZE = 0" "paddr mod PAGE_SIZE = 0"
    "walk_loop root vaddr PML1 False PML4 s = Inr (p, s')" "p \<noteq> NULL"
    "present_at (mem s) p"
  shows "paging_map_root root vaddr paddr flags s =
     Inr ((), error
       ''[paging_map] request to map vaddr 0x%lx to paddr 0x%lx but vaddr was already mapped to %0xlx.''
       [vaddr, paddr, load64 (mem s) p AND PAGE_ADDR] s)"
proof -
  have w: "s' = s" "walk_loop root vaddr PML1 True PML4 s = Inr (p, s)"
    using walk_loop_lookup_create[OF assms(4,5)] by simp_all
  show ?thesis
    using assms(6)
    by (simp add: paging_map_root_aligned[OF assms(1,2,3) w(2) assms(5)])
qed

lemma zero_mem_load [simp]: "load64 zero_mem a = 0"
  by (simp add: zero_mem_def load64_def)

lemma four_level_loads:
  "load64 four_level_mem 0x1000 = 0x2001"
  "load64 four_level_mem 0x2000 = 0x3001"
  "load64 four_level_mem 0x3010 = 0x4001"
  "load64 four_level_mem 0x4000 = 0"
  by (simp_all add: four_level_mem_def load64_store64_same load64_store64_other)

lemma four_level_walk:
  "walk_loop 0x1000 0x400000 PML1 False PML4 (boot_state four_level_mem fs) =
     Inr (0x4000, boot_state four_level_mem fs)"
  by (simp add: walk_loop_lookup PML1_def PML4_def paging_vaddr_idx_def entry_ptr_def
      sizeof_entry_def PAGE_IDX_SIZE_def PAGE_OFFSET_SIZE_def PAGE_IDX_MASK_def NULL_def
      present_at_def PAGE_PRESENT_def PAGE_ADDR_def boot_state_def four_level_loads)

section \<open>Unmapping\<close>

lemma align_down_aligned: "ALIGN_DOWN v PAGE_SIZE mod PAGE_SIZE = 0"
proof -
  have "take_bit 12 (v AND NOT (mask 12)) = 0"
    by (rule bit_word_eqI) (auto simp add: bit_simps)
  then show ?thesis by (simp add: page_mod align_down_page)
qed

lemma paging_walk_align:
  assumes "root \<noteq> NULL"
  shows "paging_walk root (fst (align_vaddr v s)) l cr (snd (align_vaddr v s)) =
     paging_walk root v l cr s"
  using assms
  by (cases "v mod PAGE_SIZE = 0")
    (simp_all add: paging_walk_def align_vaddr_def align_down_aligned)

lemma paging_unmap_root_walk:
  assumes "root \<noteq> NULL"
  shows "paging_unmap_root root vaddr s =
     (case paging_walk root vaddr PML1 False s of
        Inl f \<Rightarrow> Inl f
      | Inr (p, s1) \<Rightarrow> write64 p 0 s1)"
  using assms paging_walk_align[OF assms, of vaddr s PML1 False]
  by (simp add: paging_unmap_root_def split_beta)

lemma paging_walk_lookup_mem:
  assumes "root \<noteq> NULL" "paging_walk root vaddr PML1 False s = Inr (p, s')" "p \<noteq> NULL"
  shows "s' = snd (align_vaddr vaddr s)" "mem s' = mem s"
proof -
  have "walk_loop root (fst (align_vaddr vaddr s)) PML1 False PML4 (snd (align_vaddr vaddr s)) =
      Inr (p, s')"
    using assms(1,2) by (simp add: paging_walk_def split_beta)
  from walk_loop_lookup_create[OF this assms(3)]
  show "s' = snd (align_vaddr vaddr s)" by simp
  then show "mem s' = mem s" by (simp add: align_vaddr_def warning_def)
qed

text \<open>
  C4. For a non-null root table and a virtual address whose leaf entry the lookup-only walk
  resolves (every intermediate table on the way is present), \<^verbatim>\<open>__paging_unmap\<close> returns
  and has stored zero into that entry, whatever the entry held before: its raw value is then
  exactly zero, address field and flags alike.
\<close>

theorem unmap_zeroes_leaf:
  assumes "root \<noteq> NULL"
    and "paging_walk root vaddr PML1 False s = Inr (p, s')"
    and "p \<noteq> NULL"
  shows "paging_unmap_root root vaddr s = Inr ((), s'\<lparr>mem := store64 (mem s) p 0\<rparr>)
       \<and> load64 (store64 (mem s) p 0) p = 0"
  using assms paging_walk_lookup_mem(2)[OF assms]
  by (simp add: paging_unmap_root_walk write64_def load64_store64_same)

lemma mapped_loads:
  "load64 mapped_mem 0x1000 = 0x2001"
  "load64 mapped_mem 0x2000 = 0x3001"
  "load64 mapped_mem 0x3010 = 0x4001"
  "load64 mapped_mem 0x4000 = 0x100003"
  by (simp_all add: mapped_mem_def load64_store64_same load64_store64_other four_level_loads)

lemma mapped_walk:
  "walk_loop 0x1000 0x400000 PML1 False PML4 (boot_state mapped_mem fs) =
     Inr (0x4000, boot_state mapped_mem fs)"
  by (simp add: walk_loop_lookup PML1_def PML4_def paging_vaddr_idx_def entry_ptr_def
      sizeof_entry_def PAGE_IDX_SIZE_def PAGE_OFFSET_SIZE_def PAGE_IDX_MASK_def NULL_def
      present_at_def PAGE_PRESENT_def PAGE_ADDR_def boot_state_def mapped_loads)

lemma example_aligned:
  "(0x1000 :: 64 word) \<noteq> NULL" "(0x4000 :: 64 word) \<noteq> NULL"
  "(0x400000 :: 64 word) mod PAGE_SIZE = 0" "(0x100000 :: 64 word) mod PAGE_SIZE = 0"
  by (simp_all add: NULL_def PAGE_SIZE_def)

lemma mapped_paging_walk:
  "paging_walk 0x1000 0x400000 PML1 False (boot_state mapped_mem fs) =
     Inr (0x4000, boot_state mapped_mem fs)"
  by (simp add: paging_walk_aligned example_aligned mapped_walk)

lemma four_level_paging_walk:
  "paging_walk 0x1000 0x400000 PML1 False (boot_state four_level_mem fs) =
     Inr (0x4000, boot_state four_level_mem fs)"
  by (simp add: paging_walk_aligned example_aligned four_level_walk)

theorem unmap_zeroes_leaf_witness:
  "(0x1000 :: 64 word) \<noteq> NULL \<and> (0x4000 :: 64 word) \<noteq> NULL
   \<and> paging_walk 0x1000 0x400000 PML1 False (boot_state mapped_mem []) =
       Inr (0x4000, boot_state mapped_mem [])
   \<and> load64 (mem (boot_state mapped_mem [])) 0x4000 = 0x100003
   \<and> paging_unmap_root 0x1000 0x400000 (boot_state mapped_mem []) =
       Inr ((), (boot_state mapped_mem [])\<lparr>mem := store64 mapped_mem 0x4000 0\<rparr>)
   \<and> load64 (store64 mapped_mem 0x4000 0) 0x4000 = 0"
proof -
  have m: "mem (boot_state mapped_mem []) = mapped_mem" by (simp add: boot_state_def)
  show ?thesis
    using unmap_zeroes_leaf[OF example_aligned(1) mapped_paging_walk[of "[]"] example_aligned(2)]
    by (simp add: example_aligned mapped_paging_walk m mapped_loads)
qed

text \<open>
  C10. At a level above the requested one, a non-present entry makes the lookup-only walk
  return the null pointer; and whenever the leaf-level lookup-only walk returns the null
  pointer for a non-null root, \<^verbatim>\<open>__paging_unmap\<close> does not return: it stores through the
  null pointer.
\<close>

theorem unmap_unmapped_stores_through_null:
  assumes "root \<noteq> NULL"
  shows "(l < i \<and> entry_ptr c (paging_vaddr_idx v i) \<noteq> NULL
          \<and> \<not> present_at (mem s) (entry_ptr c (paging_vaddr_idx v i)) \<longrightarrow>
          walk_loop c v l False i s =
            Inr (NULL, error
              ''[paging_walk] A non-present entry was found at level %u for vaddr 0x%lx''
              [of_nat l, v] s))
       \<and> (paging_walk root vaddr PML1 False s = Inr (NULL, s') \<longrightarrow>
          paging_unmap_root root vaddr s = Inl (NullDeref, s'))"
  using assms
  by (auto simp add: paging_unmap_root_walk write64_def walk_loop_lookup[of c v l i s])

lemma empty_root_walk:
  "paging_walk 0x1000 0x400000 PML1 False (boot_state zero_mem []) =
     Inr (NULL, error
       ''[paging_walk] A non-present entry was found at level %u for vaddr 0x%lx''
       [0, 0x400000] (boot_state zero_mem []))"
  by (simp add: paging_walk_aligned example_aligned walk_loop_lookup PML1_def PML4_def
      paging_vaddr_idx_def entry_ptr_def
      sizeof_entry_def PAGE_IDX_SIZE_def PAGE_OFFSET_SIZE_def PAGE_IDX_MASK_def NULL_def
      present_at_def PAGE_PRESENT_def boot_state_def)

theorem unmap_unmapped_stores_through_null_witness:
  "(0x1000 :: 64 word) \<noteq> NULL
   \<and> PML1 < PML4 \<and> entry_ptr 0x1000 (paging_vaddr_idx 0x400000 PML4) \<noteq> NULL
   \<and> \<not> present_at (mem (boot_state zero_mem [])) (entry_ptr 0x1000 (paging_vaddr_idx 0x400000 PML4))
   \<and> paging_walk 0x1000 0x400000 PML1 False (boot_state zero_mem []) =
       Inr (NULL, error
         ''[paging_walk] A non-present entry was found at level %u for vaddr 0x%lx''
         [0, 0x400000] (boot_state zero_mem []))
   \<and> paging_unmap_root 0x1000 0x400000 (boot_state zero_mem []) =
       Inl (NullDeref, error
         ''[paging_walk] A non-present entry was found at level %u for vaddr 0x%lx''
         [0, 0x400000] (boot_state zero_mem []))"
proof -
  have e: "PML1 < PML4" "entry_ptr 0x1000 (paging_vaddr_idx 0x400000 PML4) \<noteq> NULL"
    "\<not> present_at (mem (boot_state zero_mem [])) (entry_ptr 0x1000 (paging_vaddr_idx 0x400000 PML4))"
    by (simp_all add: PML1_def PML4_def paging_vaddr_idx_def entry_ptr_def
      sizeof_entry_def PAGE_IDX_SIZE_def PAGE_OFFSET_SIZE_def PAGE_IDX_MASK_def NULL_def
      present_at_def PAGE_PRESENT_def boot_state_def)
  show ?thesis
    using unmap_unmapped_stores_through_null[OF example_aligned(1),
        of PML1 PML4 "0x1000" "0x400000" "boot_state zero_mem []" "0x400000" _]
      empty_root_walk e example_aligned(1)
    by simp
qed

section \<open>Map, then look up\<close>

lemma map_fresh_lookup:
  assumes "root \<noteq> NULL" "take_bit 3 root = 0"
    "vaddr mod PAGE_SIZE = 0" "paddr mod PAGE_SIZE = 0"
    "walk_loop root vaddr PML1 False PML4 s = Inr (p, s')" "p \<noteq> NULL"
    "\<not> present_at (mem s) p" "flags AND PAGE_ADDR = 0"
  defines "t \<equiv> s\<lparr>mem := store64 (mem s) p
        (((load64 (mem s) p OR flags) AND NOT PAGE_ADDR) OR (paddr AND PAGE_ADDR))\<rparr>"
  shows "paging_map_root root vaddr paddr flags s = Inr ((), t)"
    and "walk_loop root vaddr PML1 False PML4 t = Inr (p, t)"
    and "load64 (mem t) p =
        (((load64 (mem s) p OR flags) AND NOT PAGE_ADDR) OR (paddr AND PAGE_ADDR))"
proof -
  have w: "s' = s"
    using walk_loop_lookup_create[OF assms(5,6)] by simp
  show "paging_map_root root vaddr paddr flags s = Inr ((), t)"
    unfolding t_def by (rule map_fresh[OF assms(1,3,4,5,6,7,8)])
  show "walk_loop root vaddr PML1 False PML4 t = Inr (p, t)"
    unfolding t_def
    by (rule walk_loop_lookup_frame[OF assms(2) assms(5)[unfolded w] assms(6,7)])
  show "load64 (mem t) p =
        (((load64 (mem s) p OR flags) AND NOT PAGE_ADDR) OR (paddr AND PAGE_ADDR))"
    unfolding t_def by (simp add: load64_store64_same)
qed

text \<open>
  C6, amended. For a non-null, entry-aligned root table, page-aligned \<open>vaddr\<close> and
  \<open>paddr\<close>, with \<open>paddr\<close> inside the address field of an entry, and flags that include the
  present bit and do not overlap the address field: from a state where the lookup-only walk
  resolves the leaf entry of \<open>vaddr\<close> and that entry is not present, \<^verbatim>\<open>__paging_map\<close>
  returns, and in the state it leaves the leaf-level walk returns the same entry, whose
  decoded address is \<open>paddr\<close> and whose present flag is set.
\<close>

theorem map_round_trip:
  assumes "root \<noteq> NULL" and "root mod sizeof_entry = 0"
    and "vaddr mod PAGE_SIZE = 0" and "paddr mod PAGE_SIZE = 0"
    and "paddr AND PAGE_ADDR = paddr"
    and "flags AND PAGE_ADDR = 0" and "flags AND PAGE_PRESENT = PAGE_PRESENT"
    and "paging_walk root vaddr PML1 False s = Inr (p, s')" and "p \<noteq> NULL"
    and "\<not> present_at (mem s) p"
  shows "\<exists>t. paging_map_root root vaddr paddr flags s = Inr ((), t)
           \<and> paging_walk root vaddr PML1 False t = Inr (p, t)
           \<and> paging_get_paddr p t = Inr (paddr, t)
           \<and> paging_check_flags p PAGE_PRESENT t = Inr (True, t)"
proof -
  have al: "take_bit 3 root = 0"
    using assms(2) by (simp add: sizeof_entry_def take_bit_eq_mod)
  have w: "walk_loop root vaddr PML1 False PML4 s = Inr (p, s')"
    using assms(8) by (simp add: paging_walk_aligned[OF assms(1,3)])
  note m = map_fresh_lookup[OF assms(1) al assms(3,4) w assms(9,10,6)]
  let ?t = "s\<lparr>mem := store64 (mem s) p
        (((load64 (mem s) p OR flags) AND NOT PAGE_ADDR) OR (paddr AND PAGE_ADDR))\<rparr>"
  have "paging_walk root vaddr PML1 False ?t = Inr (p, ?t)"
    using m(2) by (simp add: paging_walk_aligned[OF assms(1,3)])
  moreover have "paging_get_paddr p ?t = Inr (paddr, ?t)"
  proof -
    have "load64 (mem ?t) p AND PAGE_ADDR = paddr AND PAGE_ADDR"
      unfolding m(3) by (rule field_replace(2))
    then have "load64 (mem ?t) p AND PAGE_ADDR = paddr"
      by (simp only: assms(5))
    then show ?thesis
      using assms(9) by (simp only: paging_get_paddr_eq if_False)
  qed
  moreover have "paging_check_flags p PAGE_PRESENT ?t = Inr (True, ?t)"
    using assms(9) m(3) present_kept[OF assms(7)]
    by (simp add: paging_check_flags_present present_at_def)
  ultimately show ?thesis using m(1) by blast
qed


lemma example_masks:
  "(0x1000 :: 64 word) mod sizeof_entry = 0"
  "(0x100000 :: 64 word) AND PAGE_ADDR = 0x100000"
  "(0x3 :: 64 word) AND PAGE_ADDR = 0"
  "(0x3 :: 64 word) AND PAGE_PRESENT = PAGE_PRESENT"
  by (simp_all add: sizeof_entry_def PAGE_ADDR_def PAGE_PRESENT_def)

lemma four_level_leaf_free: "\<not> present_at (mem (boot_state four_level_mem fs)) 0x4000"
  by (simp add: boot_state_def present_at_def four_level_loads PAGE_PRESENT_def)

theorem map_round_trip_witness:
  "(0x1000 :: 64 word) \<noteq> NULL \<and> (0x1000 :: 64 word) mod sizeof_entry = 0
   \<and> (0x400000 :: 64 word) mod PAGE_SIZE = 0 \<and> (0x100000 :: 64 word) mod PAGE_SIZE = 0
   \<and> (0x100000 :: 64 word) AND PAGE_ADDR = 0x100000
   \<and> (0x3 :: 64 word) AND PAGE_ADDR = 0 \<and> (0x3 :: 64 word) AND PAGE_PRESENT = PAGE_PRESENT
   \<and> paging_walk 0x1000 0x400000 PML1 False (boot_state four_level_mem []) =
       Inr (0x4000, boot_state four_level_mem [])
   \<and> (0x4000 :: 64 word) \<noteq> NULL
   \<and> \<not> present_at (mem (boot_state four_level_mem [])) 0x4000
   \<and> (\<exists>t. paging_map_root 0x1000 0x400000 0x100000 0x3 (boot_state four_level_mem []) = Inr ((), t)
           \<and> paging_walk 0x1000 0x400000 PML1 False t = Inr (0x4000, t)
           \<and> paging_get_paddr 0x4000 t = Inr (0x100000, t)
           \<and> paging_check_flags 0x4000 PAGE_PRESENT t = Inr (True, t))"
  using map_round_trip[OF example_aligned(1) example_masks(1) example_aligned(3,4)
      example_masks(2,3,4) four_level_paging_walk[of "[]"] example_aligned(2)
      four_level_leaf_free[of "[]"]]
    example_aligned example_masks four_level_paging_walk[of "[]"] four_level_leaf_free[of "[]"]
  by blast

lemma boot_state_mem_update [simp]: "(boot_state m fs)\<lparr>mem := m'\<rparr> = boot_state m' fs"
  by (simp add: boot_state_def)

lemma boot_state_mem [simp]: "mem (boot_state m fs) = m"
  by (simp add: boot_state_def)

theorem map_round_trip_counterexample:
  "(0x1000 :: 64 word) \<noteq> NULL
   \<and> (0x400000 :: 64 word) mod PAGE_SIZE = 0 \<and> (0x10000000000000 :: 64 word) mod PAGE_SIZE = 0
   \<and> (0x3 :: 64 word) AND PAGE_ADDR = 0 \<and> (0x3 :: 64 word) AND PAGE_PRESENT = PAGE_PRESENT
   \<and> paging_walk 0x1000 0x400000 PML1 False (boot_state four_level_mem []) =
       Inr (0x4000, boot_state four_level_mem [])
   \<and> \<not> present_at (mem (boot_state four_level_mem [])) 0x4000
   \<and> paging_map_root 0x1000 0x400000 0x10000000000000 0x3 (boot_state four_level_mem []) =
       Inr ((), boot_state (store64 four_level_mem 0x4000 0x3) [])
   \<and> paging_walk 0x1000 0x400000 PML1 False (boot_state (store64 four_level_mem 0x4000 0x3) []) =
       Inr (0x4000, boot_state (store64 four_level_mem 0x4000 0x3) [])
   \<and> paging_get_paddr 0x4000 (boot_state (store64 four_level_mem 0x4000 0x3) []) =
       Inr (0, boot_state (store64 four_level_mem 0x4000 0x3) [])
   \<and> (0 :: 64 word) \<noteq> 0x10000000000000"
proof -
  have big: "(0x10000000000000 :: 64 word) mod PAGE_SIZE = 0"
    by (simp add: PAGE_SIZE_def)
  have al: "take_bit 3 (0x1000 :: 64 word) = 0" by simp
  have v: "((load64 four_level_mem 0x4000 OR 0x3) AND NOT PAGE_ADDR) OR
      (0x10000000000000 AND PAGE_ADDR) = (0x3 :: 64 word)"
    by (simp add: four_level_loads PAGE_ADDR_def)
  note m = map_fresh_lookup[OF example_aligned(1) al example_aligned(3) big
      four_level_walk[of "[]"] example_aligned(2) four_level_leaf_free[of "[]"] example_masks(3),
      simplified, unfolded v]
  have g: "paging_get_paddr 0x4000 (boot_state (store64 four_level_mem 0x4000 0x3) []) =
       Inr (0, boot_state (store64 four_level_mem 0x4000 0x3) [])"
    by (simp add: paging_get_paddr_eq example_aligned load64_store64_same PAGE_ADDR_def)
  show ?thesis
    using m(1,2) g big example_aligned example_masks four_level_paging_walk[of "[]"]
      four_level_leaf_free[of "[]"]
    by (simp add: paging_walk_aligned)
qed

section \<open>No overwrite\<close>

text \<open>
  C2. For a non-null root table and page-aligned \<open>vaddr\<close> and \<open>paddr\<close>: if the leaf
  entry that the lookup-only walk resolves is present, \<^verbatim>\<open>__paging_map\<close> only adds the
  conflict error to the diagnostic output, so memory, and with it the entry, is unchanged,
  for every flags; if that entry is not present, a first \<^verbatim>\<open>__paging_map\<close> with flags
  that include the present bit followed by a second one of the same \<open>vaddr\<close> leaves the
  state of the first, up to the conflict error the second one adds; and whenever the leaf
  entry that the walk of \<^verbatim>\<open>__paging_map\<close> itself resolves is present, the call leaves
  the state of that walk, up to the conflict error.
\<close>

theorem map_no_overwrite:
  assumes "root \<noteq> NULL"
    and "vaddr mod PAGE_SIZE = 0" and "paddr mod PAGE_SIZE = 0"
    and "paging_walk root vaddr PML1 False s = Inr (p, s')" and "p \<noteq> NULL"
  shows "(present_at (mem s) p \<longrightarrow>
            paging_map_root root vaddr paddr flags s =
              Inr ((), s\<lparr>out := out s @
                [(Error,
                  ''[paging_map] request to map vaddr 0x%lx to paddr 0x%lx but vaddr was already mapped to %0xlx.'',
                  [vaddr, paddr, load64 (mem s) p AND PAGE_ADDR])]\<rparr>))
       \<and> (\<not> present_at (mem s) p \<and> root mod sizeof_entry = 0
            \<and> flags AND PAGE_ADDR = 0 \<and> flags AND PAGE_PRESENT = PAGE_PRESENT
            \<and> paddr2 mod PAGE_SIZE = 0 \<longrightarrow>
            (\<exists>t. paging_map_root root vaddr paddr flags s = Inr ((), t)
               \<and> paging_map_root root vaddr paddr2 flags2 t =
                   Inr ((), t\<lparr>out := out t @
                     [(Error,
                       ''[paging_map] request to map vaddr 0x%lx to paddr 0x%lx but vaddr was already mapped to %0xlx.'',
                       [vaddr, paddr2, load64 (mem t) p AND PAGE_ADDR])]\<rparr>)))
       \<and> (paging_walk root vaddr PML1 True s = Inr (q, s1) \<and> q \<noteq> NULL
            \<and> present_at (mem s1) q \<longrightarrow>
            paging_map_root root vaddr paddr flags s =
              Inr ((), s1\<lparr>out := out s1 @
                [(Error,
                  ''[paging_map] request to map vaddr 0x%lx to paddr 0x%lx but vaddr was already mapped to %0xlx.'',
                  [vaddr, paddr, load64 (mem s1) q AND PAGE_ADDR])]\<rparr>))"
proof (intro conjI impI)
  have w: "walk_loop root vaddr PML1 False PML4 s = Inr (p, s')"
    using assms(4) by (simp add: paging_walk_aligned[OF assms(1,2)])
  {
    assume "present_at (mem s) p"
    from map_conflict[OF assms(1,2,3) w assms(5) this]
    show "paging_map_root root vaddr paddr flags s =
              Inr ((), s\<lparr>out := out s @
                [(Error,
                  ''[paging_map] request to map vaddr 0x%lx to paddr 0x%lx but vaddr was already mapped to %0xlx.'',
                  [vaddr, paddr, load64 (mem s) p AND PAGE_ADDR])]\<rparr>)"
      by (simp add: error_def emit_def)
  }
  {
    assume a: "\<not> present_at (mem s) p \<and> root mod sizeof_entry = 0
            \<and> flags AND PAGE_ADDR = 0 \<and> flags AND PAGE_PRESENT = PAGE_PRESENT
            \<and> paddr2 mod PAGE_SIZE = 0"
    have al: "take_bit 3 root = 0"
      using a by (simp add: sizeof_entry_def take_bit_eq_mod)
    let ?t = "s\<lparr>mem := store64 (mem s) p
        (((load64 (mem s) p OR flags) AND NOT PAGE_ADDR) OR (paddr AND PAGE_ADDR))\<rparr>"
    from a have np: "\<not> present_at (mem s) p" and fl: "flags AND PAGE_ADDR = 0"
      and fp: "flags AND PAGE_PRESENT = PAGE_PRESENT" and p2: "paddr2 mod PAGE_SIZE = 0"
      by simp_all
    note m = map_fresh_lookup[OF assms(1) al assms(2,3) w assms(5) np fl]
    have pr: "present_at (mem ?t) p"
      unfolding present_at_def m(3) by (rule present_kept[OF fp])
    from map_conflict[OF assms(1,2) p2 m(2) assms(5) pr, of flags2]
    have "paging_map_root root vaddr paddr2 flags2 ?t =
        Inr ((), ?t\<lparr>out := out ?t @
          [(Error,
            ''[paging_map] request to map vaddr 0x%lx to paddr 0x%lx but vaddr was already mapped to %0xlx.'',
            [vaddr, paddr2, load64 (mem ?t) p AND PAGE_ADDR])]\<rparr>)"
      by (simp add: error_def emit_def)
    with m(1)
    show "\<exists>t. paging_map_root root vaddr paddr flags s = Inr ((), t)
               \<and> paging_map_root root vaddr paddr2 flags2 t =
                   Inr ((), t\<lparr>out := out t @
                     [(Error,
                       ''[paging_map] request to map vaddr 0x%lx to paddr 0x%lx but vaddr was already mapped to %0xlx.'',
                       [vaddr, paddr2, load64 (mem t) p AND PAGE_ADDR])]\<rparr>)"
      by blast
  }
  {
    assume c: "paging_walk root vaddr PML1 True s = Inr (q, s1) \<and> q \<noteq> NULL
            \<and> present_at (mem s1) q"
    then have wc: "walk_loop root vaddr PML1 True PML4 s = Inr (q, s1)"
      by (simp add: paging_walk_aligned[OF assms(1,2)])
    from c show "paging_map_root root vaddr paddr flags s =
              Inr ((), s1\<lparr>out := out s1 @
                [(Error,
                  ''[paging_map] request to map vaddr 0x%lx to paddr 0x%lx but vaddr was already mapped to %0xlx.'',
                  [vaddr, paddr, load64 (mem s1) q AND PAGE_ADDR])]\<rparr>)"
      by (simp add: paging_map_root_aligned[OF assms(1,2,3) wc] error_def emit_def)
  }
qed


lemma mapped_leaf_present: "present_at (mem (boot_state mapped_mem fs)) 0x4000"
  by (simp add: present_at_def mapped_loads PAGE_PRESENT_def)

lemma example_aligned2: "(0x200000 :: 64 word) mod PAGE_SIZE = 0"
  by (simp add: PAGE_SIZE_def)

theorem map_no_overwrite_witness:
  "(0x1000 :: 64 word) \<noteq> NULL \<and> (0x400000 :: 64 word) mod PAGE_SIZE = 0
   \<and> (0x200000 :: 64 word) mod PAGE_SIZE = 0 \<and> (0x100000 :: 64 word) mod PAGE_SIZE = 0
   \<and> (0x4000 :: 64 word) \<noteq> NULL
   \<and> paging_walk 0x1000 0x400000 PML1 False (boot_state mapped_mem []) =
       Inr (0x4000, boot_state mapped_mem [])
   \<and> present_at (mem (boot_state mapped_mem [])) 0x4000
   \<and> paging_map_root 0x1000 0x400000 0x200000 0x3 (boot_state mapped_mem []) =
       Inr ((), (boot_state mapped_mem [])\<lparr>out :=
         [(Error,
           ''[paging_map] request to map vaddr 0x%lx to paddr 0x%lx but vaddr was already mapped to %0xlx.'',
           [0x400000, 0x200000, 0x100000])]\<rparr>)
   \<and> paging_walk 0x1000 0x400000 PML1 False (boot_state four_level_mem []) =
       Inr (0x4000, boot_state four_level_mem [])
   \<and> \<not> present_at (mem (boot_state four_level_mem [])) 0x4000
   \<and> (0x1000 :: 64 word) mod sizeof_entry = 0
   \<and> (0x3 :: 64 word) AND PAGE_ADDR = 0 \<and> (0x3 :: 64 word) AND PAGE_PRESENT = PAGE_PRESENT
   \<and> (\<exists>t. paging_map_root 0x1000 0x400000 0x100000 0x3 (boot_state four_level_mem []) = Inr ((), t)
          \<and> paging_map_root 0x1000 0x400000 0x200000 0x7 t =
              Inr ((), t\<lparr>out := out t @
                [(Error,
                  ''[paging_map] request to map vaddr 0x%lx to paddr 0x%lx but vaddr was already mapped to %0xlx.'',
                  [0x400000, 0x200000, load64 (mem t) 0x4000 AND PAGE_ADDR])]\<rparr>))
   \<and> paging_walk 0x1000 0x400000 PML1 True (boot_state mapped_mem []) =
       Inr (0x4000, boot_state mapped_mem [])"
proof -
  have o: "out (boot_state m fs) = []" for m fs by (simp add: boot_state_def)
  have wt: "paging_walk 0x1000 0x400000 PML1 True (boot_state mapped_mem []) =
       Inr (0x4000, boot_state mapped_mem [])"
    using walk_loop_lookup_create[OF mapped_walk[of "[]"] example_aligned(2)]
    by (simp add: paging_walk_aligned example_aligned)
  note c = map_no_overwrite[OF example_aligned(1,3) example_aligned2 mapped_paging_walk[of "[]"]
      example_aligned(2), where flags="0x3" and q="0x4000" and ?s1.0="boot_state mapped_mem []",
      THEN conjunct2, THEN conjunct2, rule_format,
      OF conjI[OF wt conjI[OF example_aligned(2) mapped_leaf_present]]]
  have v: "load64 mapped_mem 0x4000 AND PAGE_ADDR = 0x100000"
    by (simp add: mapped_loads PAGE_ADDR_def)
  note a = map_no_overwrite[OF example_aligned(1,3) example_aligned2 mapped_paging_walk[of "[]"]
      example_aligned(2), of "0x3", THEN conjunct1, rule_format, OF mapped_leaf_present,
      unfolded o boot_state_mem v append_Nil]
  note b = map_no_overwrite[OF example_aligned(1,3,4) four_level_paging_walk[of "[]"]
      example_aligned(2), of "0x3" "0x200000" "0x7", THEN conjunct2, THEN conjunct1, rule_format,
      OF conjI[OF four_level_leaf_free conjI[OF example_masks(1) conjI[OF example_masks(3)
        conjI[OF example_masks(4) example_aligned2]]]]]
  show ?thesis
    using a b c wt example_aligned example_aligned2 example_masks mapped_paging_walk[of "[]"]
      four_level_paging_walk[of "[]"] mapped_leaf_present[of "[]"] four_level_leaf_free[of "[]"]
    by blast
qed

lemma machine_emit [simp]: "machine (emit l f a s) = machine s"
  by (simp add: machine_def emit_def)

lemma machine_fields:
  "machine s = machine t \<Longrightarrow> mem s = mem t"
  "machine s = machine t \<Longrightarrow> frames s = frames t"
  "machine s = machine t \<Longrightarrow> flushed s = flushed t"
  "machine s = machine t \<Longrightarrow> cr2 s = cr2 t"
  "machine s = machine t \<Longrightarrow> cr3 s = cr3 t"
  by (cases s, cases t, simp add: machine_def)+

lemma res_state_simps [simp]:
  "res_state (Inr (x, s)) = s" "res_state (Inl (f, s)) = s"
  by (simp_all add: res_state_def)

lemma walk_loop_lookup_machine:
  "machine (res_state (walk_loop c v l False i s)) = machine s"
proof (induction i arbitrary: c)
  case 0
  show ?case
    by (subst walk_loop_lookup) (simp add: error_def)
next
  case (Suc i)
  show ?case
    by (subst walk_loop_lookup) (simp add: error_def Suc.IH)
qed

lemma paging_walk_lookup_machine:
  "machine (res_state (paging_walk root v l False s)) = machine s"
  by (simp add: paging_walk_def error_def split_beta
      walk_loop_lookup_machine align_vaddr_def warning_def)

section \<open>Invalidation of the translation cache\<close>

lemma write64_flushed: "flushed (res_state (write64 p v s)) = flushed s"
  by (simp add: write64_def)

lemma paging_unmap_root_flushed:
  "flushed (res_state (paging_unmap_root root vaddr s)) = flushed s"
proof (cases "root = NULL")
  case True
  then show ?thesis by (simp add: paging_unmap_root_def error_def)
next
  case False
  have w: "flushed (res_state (paging_walk root vaddr PML1 False s)) = flushed s"
    using machine_fields(3)[OF paging_walk_lookup_machine] .
  show ?thesis
  proof (cases "paging_walk root vaddr PML1 False s")
    case (Inl a)
    then show ?thesis
      using w by (cases a) (simp add: paging_unmap_root_walk[OF False])
  next
    case (Inr b)
    then show ?thesis
      using w by (cases b) (simp add: paging_unmap_root_walk[OF False] write64_flushed)
  qed
qed

text \<open>
  C3, amended. \<^verbatim>\<open>__paging_unmap\<close>, with an explicit root table, never invalidates an
  address: the invalidations after it are the ones before it, whether it returns or stops.
  \<^verbatim>\<open>paging_unmap\<close>, on the active root table, invalidates the virtual address it was
  given once its \<^verbatim>\<open>__paging_unmap\<close> has returned.
\<close>

theorem unmap_invalidation:
  "flushed (res_state (paging_unmap_root root vaddr s)) = flushed s
   \<and> (paging_unmap_root (paging_cr3 s) vaddr s = Inr (u, t) \<longrightarrow>
        paging_unmap vaddr s = Inr ((), t\<lparr>flushed := flushed s @ [vaddr]\<rparr>))"
proof (intro conjI impI)
  show "flushed (res_state (paging_unmap_root root vaddr s)) = flushed s"
    by (rule paging_unmap_root_flushed)
  assume a: "paging_unmap_root (paging_cr3 s) vaddr s = Inr (u, t)"
  have "flushed t = flushed s"
    using paging_unmap_root_flushed[of "paging_cr3 s" vaddr s] a by simp
  then show "paging_unmap vaddr s = Inr ((), t\<lparr>flushed := flushed s @ [vaddr]\<rparr>)"
    using a by (simp add: paging_unmap_def invlpg_def)
qed

lemma mapped_unmap:
  "paging_unmap_root 0x1000 0x400000 (boot_state mapped_mem []) =
     Inr ((), boot_state (store64 mapped_mem 0x4000 0) [])"
  by (simp add: paging_unmap_root_aligned example_aligned mapped_walk write64_def)

theorem unmap_root_invalidation_counterexample:
  "paging_unmap_root 0x1000 0x400000 (boot_state mapped_mem []) =
     Inr ((), boot_state (store64 mapped_mem 0x4000 0) [])
   \<and> load64 (mem (boot_state (store64 mapped_mem 0x4000 0) [])) 0x4000 = 0
   \<and> 0x400000 \<notin> set (flushed (boot_state (store64 mapped_mem 0x4000 0) []))"
  using mapped_unmap by (simp add: load64_store64_same boot_state_def)

theorem unmap_invalidation_witness:
  "paging_unmap_root (paging_cr3 (boot_state mapped_mem [])) 0x400000 (boot_state mapped_mem []) =
     Inr ((), boot_state (store64 mapped_mem 0x4000 0) [])
   \<and> flushed (res_state (paging_unmap_root 0x1000 0x400000 (boot_state mapped_mem []))) = []
   \<and> paging_unmap 0x400000 (boot_state mapped_mem []) =
       Inr ((), (boot_state (store64 mapped_mem 0x4000 0) [])\<lparr>flushed := [0x400000]\<rparr>)"
proof -
  have c: "paging_cr3 (boot_state mapped_mem []) = 0x1000"
    by (simp add: paging_cr3_def boot_state_def ALIGN_DOWN_def PAGE_SIZE_def)
  have f: "flushed (boot_state mapped_mem []) = []" by (simp add: boot_state_def)
  have u: "paging_unmap_root (paging_cr3 (boot_state mapped_mem [])) 0x400000
      (boot_state mapped_mem []) = Inr ((), boot_state (store64 mapped_mem 0x4000 0) [])"
    unfolding c by (rule mapped_unmap)
  from unmap_invalidation[of "0x1000" "0x400000" "boot_state mapped_mem []" "()"
      "boot_state (store64 mapped_mem 0x4000 0) []"] u
  show ?thesis by (simp add: f)
qed

section \<open>Alignment correction\<close>

lemma align_down_offset:
  assumes "a mod PAGE_SIZE = 0" "d < PAGE_SIZE"
  shows "ALIGN_DOWN (a + d) PAGE_SIZE = a"
proof -
  have za: "take_bit 12 a = 0" using assms(1) by (simp add: page_mod)
  have a: "push_bit 12 (drop_bit 12 a) = a"
    using bits_ident[of 12 a] za by simp
  have "d < 2 ^ 12" using assms(2) by (simp add: PAGE_SIZE_def)
  then have d: "take_bit 12 d = d"
    using less_mask_eq[of d 12] by (simp add: take_bit_eq_mask)
  have dis: "push_bit 12 (drop_bit 12 a) AND take_bit 12 d = 0"
    by (rule bit_word_eqI) (auto simp add: bit_simps)
  have "a + d = push_bit 12 (drop_bit 12 a) + take_bit 12 d"
    by (simp only: a d)
  also have "\<dots> = push_bit 12 (drop_bit 12 a) OR take_bit 12 d"
    by (rule disjunctive_add_eq_or[OF dis])
  finally have s: "a + d = push_bit 12 (drop_bit 12 a) OR take_bit 12 d" .
  have "(push_bit 12 (drop_bit 12 a) OR take_bit 12 d) AND NOT (mask 12) =
      push_bit 12 (drop_bit 12 a)"
    by (rule bit_word_eqI) (auto simp add: bit_simps)
  then show ?thesis
    unfolding align_down_page s by (simp only: a)
qed

lemma align_vaddr_fst: "fst (align_vaddr v s) = ALIGN_DOWN v PAGE_SIZE"
  by (simp add: align_vaddr_def align_down_idem)

lemma align_paddr_fst: "fst (align_paddr v s) = ALIGN_DOWN v PAGE_SIZE"
  by (simp add: align_paddr_def align_down_idem)

lemma align_vaddr_machine: "machine (snd (align_vaddr v s)) = machine s"
  by (simp add: align_vaddr_def warning_def)

lemma align_paddr_machine: "machine (snd (align_paddr v s)) = machine s"
  by (simp add: align_paddr_def warning_def)

lemma machine_updates [simp]:
  "machine (s\<lparr>mem := m\<rparr>) = (machine s)\<lparr>mem := m\<rparr>"
  "machine (s\<lparr>frames := fs\<rparr>) = (machine s)\<lparr>frames := fs\<rparr>"
  "machine (s\<lparr>flushed := fl\<rparr>) = (machine s)\<lparr>flushed := fl\<rparr>"
  "machine (s\<lparr>out := ou\<rparr>) = machine s"
  by (simp_all add: machine_def)

lemma effect_simps [simp]:
  "effect (Inr (x, s)) = Inr (x, machine s)"
  "effect (Inl (f, s)) = Inl (f, machine s)"
  by (simp_all add: effect_def)

lemma effect_bind:
  assumes "effect r = effect r'"
    and "\<And>x s t. machine s = machine t \<Longrightarrow> effect (k x s) = effect (k' x t)"
  shows "effect (case r of Inl f \<Rightarrow> Inl f | Inr (x, s) \<Rightarrow> k x s) =
         effect (case r' of Inl f \<Rightarrow> Inl f | Inr (x, s) \<Rightarrow> k' x s)"
proof (cases r)
  case (Inl a)
  obtain f s where a: "a = (f, s)" by (cases a)
  from assms(1) Inl a obtain t where "r' = Inl (f, t)" "machine s = machine t"
    by (cases r') (auto split: prod.splits)
  then show ?thesis using Inl a by simp
next
  case (Inr b)
  obtain x s where b: "b = (x, s)" by (cases b)
  from assms(1) Inr b obtain t where t: "r' = Inr (x, t)" "machine s = machine t"
    by (cases r') (auto split: prod.splits)
  from assms(2)[OF t(2), of x] show ?thesis using Inr b t(1) by simp
qed

lemma read64_effect:
  "machine s = machine t \<Longrightarrow> effect (read64 p s) = effect (read64 p t)"
  using machine_fields(1)[of s t] by (simp add: read64_def)

lemma write64_effect:
  "machine s = machine t \<Longrightarrow> effect (write64 p v s) = effect (write64 p v t)"
  using machine_fields(1)[of s t] by (simp add: write64_def)

lemma write8_effect:
  "machine s = machine t \<Longrightarrow> effect (write8 p v s) = effect (write8 p v t)"
  using machine_fields(1)[of s t] by (simp add: write8_def)

lemma memset_loop_effect:
  "machine s = machine t \<Longrightarrow> effect (memset_loop b c n i s) = effect (memset_loop b c n i t)"
proof (induction b c n i s arbitrary: t rule: memset_loop.induct)
  case (1 b c n i s)
  show ?case
  proof (cases "i < n")
    case False
    then show ?thesis
      using "1.prems" by (simp add: memset_loop.simps[of b c n i])
  next
    case True
    have "effect (case write8 (b + of_nat i) (word_of_int c) s of
             Inl f \<Rightarrow> Inl f | Inr (u, s') \<Rightarrow> memset_loop b c n (i + 1) s') =
          effect (case write8 (b + of_nat i) (word_of_int c) t of
             Inl f \<Rightarrow> Inl f | Inr (u, s') \<Rightarrow> memset_loop b c n (i + 1) s')"
    proof (cases "b + of_nat i = NULL")
      case True
      then show ?thesis using "1.prems" by (simp add: write8_def)
    next
      case False
      let ?s = "s\<lparr>mem := (mem s)(b + of_nat i := word_of_int c)\<rparr>"
      let ?t = "t\<lparr>mem := (mem t)(b + of_nat i := word_of_int c)\<rparr>"
      have w: "write8 (b + of_nat i) (word_of_int c) s = Inr ((), ?s)"
        using False by (simp add: write8_def)
      have m: "machine ?s = machine ?t"
        using "1.prems" machine_fields(1)[of s t] by simp
      from "1.IH"[OF True w refl m] show ?thesis
        using False by (simp add: write8_def)
    qed
    then show ?thesis
      using True by (simp add: memset_loop.simps[of b c n i])
  qed
qed


lemma pmm_alloc_effect:
  assumes "machine s = machine t"
  shows "fst (pmm_alloc z n s) = fst (pmm_alloc z n t)"
    and "machine (snd (pmm_alloc z n s)) = machine (snd (pmm_alloc z n t))"
  using assms machine_fields(2)[OF assms]
  by (simp_all add: pmm_alloc_def split: list.splits)

lemma paging_create_effect:
  assumes "machine s = machine t"
  shows "effect (paging_create s) = effect (paging_create t)"
proof -
  obtain a s1 where ps: "pmm_alloc PMM_ZONE_NORMAL 1 s = (a, s1)"
    by (cases "pmm_alloc PMM_ZONE_NORMAL 1 s")
  obtain b t1 where pt: "pmm_alloc PMM_ZONE_NORMAL 1 t = (b, t1)"
    by (cases "pmm_alloc PMM_ZONE_NORMAL 1 t")
  from pmm_alloc_effect[OF assms, of PMM_ZONE_NORMAL 1] ps pt
  have ab: "a = b" and m: "machine s1 = machine t1" by simp_all
  show ?thesis
    unfolding paging_create_def ps pt Let_def prod.case memset_def ab
    by (rule effect_bind[OF memset_loop_effect[OF m]]) simp
qed

lemma paging_check_flags_effect:
  assumes "machine s = machine t"
  shows "effect (paging_check_flags p f s) = effect (paging_check_flags p f t)"
proof (cases "f AND PAGE_ADDR \<noteq> 0")
  case True
  then show ?thesis
    using assms by (simp add: paging_check_flags_def warning_def)
next
  case False
  then have c: "(f AND PAGE_ADDR \<noteq> 0) = False" by simp
  show ?thesis
    unfolding paging_check_flags_def c if_False
    by (rule effect_bind[OF read64_effect[OF assms]]) simp
qed

lemma paging_get_paddr_effect:
  assumes "machine s = machine t"
  shows "effect (paging_get_paddr p s) = effect (paging_get_paddr p t)"
  unfolding paging_get_paddr_def
  by (rule effect_bind[OF read64_effect[OF assms]]) simp

lemma paging_set_flags_effect:
  assumes "machine s = machine t"
  shows "effect (paging_set_flags p f s) = effect (paging_set_flags p f t)"
proof (cases "f AND PAGE_ADDR \<noteq> 0")
  case True
  then show ?thesis
    using assms by (simp add: paging_set_flags_def warning_def)
next
  case False
  then have c: "(f AND PAGE_ADDR \<noteq> 0) = False" by simp
  show ?thesis
    unfolding paging_set_flags_def c if_False
    by (rule effect_bind[OF read64_effect[OF assms]]) (rule write64_effect)
qed

lemma set_paddr_body_effect:
  assumes "machine s = machine t"
  shows "effect (case read64 p s of Inl f \<Rightarrow> Inl f
      | Inr (e, s2) \<Rightarrow>
          (case write64 p (e AND NOT PAGE_ADDR) s2 of Inl f \<Rightarrow> Inl f
           | Inr (u, s3) \<Rightarrow>
               (case read64 p s3 of Inl f \<Rightarrow> Inl f
                | Inr (e', s4) \<Rightarrow> write64 p (e' OR (x AND PAGE_ADDR)) s4))) =
    effect (case read64 p t of Inl f \<Rightarrow> Inl f
      | Inr (e, s2) \<Rightarrow>
          (case write64 p (e AND NOT PAGE_ADDR) s2 of Inl f \<Rightarrow> Inl f
           | Inr (u, s3) \<Rightarrow>
               (case read64 p s3 of Inl f \<Rightarrow> Inl f
                | Inr (e', s4) \<Rightarrow> write64 p (e' OR (x AND PAGE_ADDR)) s4)))"
  apply (rule effect_bind[OF read64_effect[OF assms]])
  apply (rule effect_bind[OF write64_effect])
   apply assumption
  apply (rule effect_bind[OF read64_effect])
   apply assumption
  apply (rule write64_effect)
  apply assumption
  done

lemma paging_set_paddr_effect:
  assumes "machine s = machine t"
  shows "effect (paging_set_paddr p a s) = effect (paging_set_paddr p a t)"
proof (cases "a mod PAGE_SIZE \<noteq> 0")
  case True
  then have c: "(a mod PAGE_SIZE \<noteq> 0) = True" by simp
  have m: "machine (warning w [a] s) = machine (warning w [a] t)" for w
    using assms by (simp add: warning_def)
  show ?thesis
    unfolding paging_set_paddr_def c if_True Let_def prod.case
    by (rule set_paddr_body_effect[OF m])
next
  case False
  then have c: "(a mod PAGE_SIZE \<noteq> 0) = False" by simp
  show ?thesis
    unfolding paging_set_paddr_def c if_False Let_def prod.case
    by (rule set_paddr_body_effect[OF assms])
qed

lemma walk_step_effect:
  assumes m: "machine s = machine t"
    and IH: "\<And>c s t. machine s = machine t \<Longrightarrow>
      effect (walk_loop c v l cr j s) = effect (walk_loop c v l cr j t)"
  shows "effect
     (case paging_check_flags q PAGE_PRESENT s of
        Inl f \<Rightarrow> Inl f
      | Inr (present, s1) \<Rightarrow>
          if present then
            (case paging_get_paddr q s1 of
               Inl f \<Rightarrow> Inl f
             | Inr (next_table, s2) \<Rightarrow> walk_loop next_table v l cr j s2)
          else if cr then
            (case paging_create s1 of
               Inl f \<Rightarrow> Inl f
             | Inr (child_table, s2) \<Rightarrow>
                 (case paging_set_paddr q child_table s2 of
                    Inl f \<Rightarrow> Inl f
                  | Inr (u, s3) \<Rightarrow>
                      (case paging_set_flags q PAGE_PRESENT s3 of
                         Inl f \<Rightarrow> Inl f
                       | Inr (u', s4) \<Rightarrow> walk_loop child_table v l cr j s4)))
          else Inr (NULL, error msg args s1)) =
    effect
     (case paging_check_flags q PAGE_PRESENT t of
        Inl f \<Rightarrow> Inl f
      | Inr (present, s1) \<Rightarrow>
          if present then
            (case paging_get_paddr q s1 of
               Inl f \<Rightarrow> Inl f
             | Inr (next_table, s2) \<Rightarrow> walk_loop next_table v l cr j s2)
          else if cr then
            (case paging_create s1 of
               Inl f \<Rightarrow> Inl f
             | Inr (child_table, s2) \<Rightarrow>
                 (case paging_set_paddr q child_table s2 of
                    Inl f \<Rightarrow> Inl f
                  | Inr (u, s3) \<Rightarrow>
                      (case paging_set_flags q PAGE_PRESENT s3 of
                         Inl f \<Rightarrow> Inl f
                       | Inr (u', s4) \<Rightarrow> walk_loop child_table v l cr j s4)))
          else Inr (NULL, error msg args s1))"
proof (rule effect_bind[OF paging_check_flags_effect[OF m]])
  fix x :: bool and s1 t1 :: kstate
  assume m1: "machine s1 = machine t1"
  show "effect
     (if x then
        (case paging_get_paddr q s1 of
           Inl f \<Rightarrow> Inl f
         | Inr (next_table, s2) \<Rightarrow> walk_loop next_table v l cr j s2)
      else if cr then
        (case paging_create s1 of
           Inl f \<Rightarrow> Inl f
         | Inr (child_table, s2) \<Rightarrow>
             (case paging_set_paddr q child_table s2 of
                Inl f \<Rightarrow> Inl f
              | Inr (u, s3) \<Rightarrow>
                  (case paging_set_flags q PAGE_PRESENT s3 of
                     Inl f \<Rightarrow> Inl f
                   | Inr (u', s4) \<Rightarrow> walk_loop child_table v l cr j s4)))
      else Inr (NULL, error msg args s1)) =
    effect
     (if x then
        (case paging_get_paddr q t1 of
           Inl f \<Rightarrow> Inl f
         | Inr (next_table, s2) \<Rightarrow> walk_loop next_table v l cr j s2)
      else if cr then
        (case paging_create t1 of
           Inl f \<Rightarrow> Inl f
         | Inr (child_table, s2) \<Rightarrow>
             (case paging_set_paddr q child_table s2 of
                Inl f \<Rightarrow> Inl f
              | Inr (u, s3) \<Rightarrow>
                  (case paging_set_flags q PAGE_PRESENT s3 of
                     Inl f \<Rightarrow> Inl f
                   | Inr (u', s4) \<Rightarrow> walk_loop child_table v l cr j s4)))
      else Inr (NULL, error msg args t1))"
  proof (cases x)
    case True
    then have cx: "x = True" by simp
    show ?thesis
      unfolding cx if_True
      by (rule effect_bind[OF paging_get_paddr_effect[OF m1]]) (rule IH)
  next
    case False
    then have cx: "x = False" by simp
    show ?thesis
    proof (cases cr)
      case True
      then have cc: "cr = True" by simp
      show ?thesis
        unfolding cx if_False
        unfolding cc if_True
        apply (rule effect_bind[OF paging_create_effect[OF m1]])
        apply (rule effect_bind[OF paging_set_paddr_effect])
         apply assumption
        apply (rule effect_bind[OF paging_set_flags_effect])
         apply assumption
        apply (rule IH[unfolded cc])
        apply assumption
        done
    next
      case False
      then show ?thesis
        using cx m1 by (simp add: error_def)
    qed
  qed
qed

lemma walk_loop_effect:
  "machine s = machine t \<Longrightarrow>
     effect (walk_loop c v l cr i s) = effect (walk_loop c v l cr i t)"
proof (induction i arbitrary: c s t rule: less_induct)
  case (less i)
  show ?case
  proof (cases "l \<le> i \<and> i \<noteq> l")
    case False
    then show ?thesis
      using less.prems
      by (auto simp add: walk_loop.simps[of c v l cr i s] walk_loop.simps[of c v l cr i t]
          Let_def error_def)
  next
    case True
    then have lt: "i - 1 < i" by simp
    from True have c1: "(\<not> l \<le> i) = False" and c2: "(i = l) = False" by simp_all
    show ?thesis
      unfolding walk_loop.simps[of c v l cr i s] walk_loop.simps[of c v l cr i t] Let_def
        c1 c2 if_False
      by (rule walk_step_effect[OF less.prems less.IH[OF lt]])
  qed
qed

lemma paging_walk_effect:
  assumes "machine s = machine t"
    and "ALIGN_DOWN v PAGE_SIZE = ALIGN_DOWN v' PAGE_SIZE"
  shows "effect (paging_walk root v l cr s) = effect (paging_walk root v' l cr t)"
proof (cases "root = NULL")
  case True
  then show ?thesis using assms(1) by (simp add: paging_walk_def error_def)
next
  case False
  obtain v1 s1 where a: "align_vaddr v s = (v1, s1)" by (cases "align_vaddr v s")
  obtain v2 t1 where b: "align_vaddr v' t = (v2, t1)" by (cases "align_vaddr v' t")
  have e: "v1 = v2"
    using align_vaddr_fst[of v s] align_vaddr_fst[of v' t] a b assms(2) by simp
  have m: "machine s1 = machine t1"
    using align_vaddr_machine[of v s] align_vaddr_machine[of v' t] a b assms(1) by simp
  show ?thesis
    using False walk_loop_effect[OF m, of root v2 l cr PML4]
    by (simp add: paging_walk_def a b e)
qed

lemma map_body_effect:
  assumes m: "machine s = machine t"
  shows "effect
     (case paging_check_flags pentry PAGE_PRESENT s of
        Inl f \<Rightarrow> Inl f
      | Inr (present, s4) \<Rightarrow>
          if present then
            (case paging_get_paddr pentry s4 of
               Inl f \<Rightarrow> Inl f
             | Inr (old_paddr, s5) \<Rightarrow> Inr ((), error msg [va, pa, old_paddr] s5))
          else
            (case paging_set_flags pentry flags s4 of
               Inl f \<Rightarrow> Inl f
             | Inr (u, s5) \<Rightarrow> paging_set_paddr pentry pa s5)) =
    effect
     (case paging_check_flags pentry PAGE_PRESENT t of
        Inl f \<Rightarrow> Inl f
      | Inr (present, s4) \<Rightarrow>
          if present then
            (case paging_get_paddr pentry s4 of
               Inl f \<Rightarrow> Inl f
             | Inr (old_paddr, s5) \<Rightarrow> Inr ((), error msg [va, pa, old_paddr] s5))
          else
            (case paging_set_flags pentry flags s4 of
               Inl f \<Rightarrow> Inl f
             | Inr (u, s5) \<Rightarrow> paging_set_paddr pentry pa s5))"
proof (rule effect_bind[OF paging_check_flags_effect[OF m]])
  fix x :: bool and s1 t1 :: kstate
  assume m1: "machine s1 = machine t1"
  show "effect
     (if x then
        (case paging_get_paddr pentry s1 of
           Inl f \<Rightarrow> Inl f
         | Inr (old_paddr, s5) \<Rightarrow> Inr ((), error msg [va, pa, old_paddr] s5))
      else
        (case paging_set_flags pentry flags s1 of
           Inl f \<Rightarrow> Inl f
         | Inr (u, s5) \<Rightarrow> paging_set_paddr pentry pa s5)) =
    effect
     (if x then
        (case paging_get_paddr pentry t1 of
           Inl f \<Rightarrow> Inl f
         | Inr (old_paddr, s5) \<Rightarrow> Inr ((), error msg [va, pa, old_paddr] s5))
      else
        (case paging_set_flags pentry flags t1 of
           Inl f \<Rightarrow> Inl f
         | Inr (u, s5) \<Rightarrow> paging_set_paddr pentry pa s5))"
  proof (cases x)
    case True
    then have cx: "x = True" by simp
    show ?thesis
      unfolding cx if_True
      by (rule effect_bind[OF paging_get_paddr_effect[OF m1]]) (simp add: error_def)
  next
    case False
    then have cx: "x = False" by simp
    show ?thesis
      unfolding cx if_False
      by (rule effect_bind[OF paging_set_flags_effect[OF m1]]) (rule paging_set_paddr_effect)
  qed
qed

lemma paging_map_root_effect:
  assumes "machine s = machine t"
    and "ALIGN_DOWN v PAGE_SIZE = ALIGN_DOWN v' PAGE_SIZE"
    and "ALIGN_DOWN pa PAGE_SIZE = ALIGN_DOWN pa' PAGE_SIZE"
  shows "effect (paging_map_root root v pa fl s) = effect (paging_map_root root v' pa' fl t)"
proof (cases "root = NULL")
  case True
  then show ?thesis using assms(1) by (simp add: paging_map_root_def error_def)
next
  case False
  then have c: "(root = NULL) = False" by simp
  obtain v1 s1 where a: "align_vaddr v s = (v1, s1)" by (cases "align_vaddr v s")
  obtain v2 t1 where b: "align_vaddr v' t = (v2, t1)" by (cases "align_vaddr v' t")
  have e: "v1 = v2"
    using align_vaddr_fst[of v s] align_vaddr_fst[of v' t] a b assms(2) by simp
  have m: "machine s1 = machine t1"
    using align_vaddr_machine[of v s] align_vaddr_machine[of v' t] a b assms(1) by simp
  obtain p1 s2 where a': "align_paddr pa s1 = (p1, s2)" by (cases "align_paddr pa s1")
  obtain p2 t2 where b': "align_paddr pa' t1 = (p2, t2)" by (cases "align_paddr pa' t1")
  have e': "p1 = p2"
    using align_paddr_fst[of pa s1] align_paddr_fst[of pa' t1] a' b' assms(3) by simp
  have m': "machine s2 = machine t2"
    using align_paddr_machine[of pa s1] align_paddr_machine[of pa' t1] a' b' m by simp
  show ?thesis
    unfolding paging_map_root_def c if_False a b Let_def prod.case a' b' e e'
    by (rule effect_bind[OF paging_walk_effect[OF m' refl]]) (rule map_body_effect)
qed

lemma paging_unmap_root_effect:
  assumes "machine s = machine t"
    and "ALIGN_DOWN v PAGE_SIZE = ALIGN_DOWN v' PAGE_SIZE"
  shows "effect (paging_unmap_root root v s) = effect (paging_unmap_root root v' t)"
proof (cases "root = NULL")
  case True
  then show ?thesis using assms(1) by (simp add: paging_unmap_root_def error_def)
next
  case False
  then have c: "(root = NULL) = False" by simp
  obtain v1 s1 where a: "align_vaddr v s = (v1, s1)" by (cases "align_vaddr v s")
  obtain v2 t1 where b: "align_vaddr v' t = (v2, t1)" by (cases "align_vaddr v' t")
  have e: "v1 = v2"
    using align_vaddr_fst[of v s] align_vaddr_fst[of v' t] a b assms(2) by simp
  have m: "machine s1 = machine t1"
    using align_vaddr_machine[of v s] align_vaddr_machine[of v' t] a b assms(1) by simp
  show ?thesis
    unfolding paging_unmap_root_def c if_False a b Let_def prod.case e
    by (rule effect_bind[OF paging_walk_effect[OF m refl]]) (rule write64_effect)
qed

lemma paging_set_paddr_align_effect:
  assumes "ALIGN_DOWN x PAGE_SIZE = ALIGN_DOWN y PAGE_SIZE"
  shows "effect (paging_set_paddr p x s) = effect (paging_set_paddr p y s)"
proof -
  let ?B = "\<lambda>w s1. (case read64 p s1 of Inl f \<Rightarrow> Inl f
      | Inr (e, s2) \<Rightarrow>
          (case write64 p (e AND NOT PAGE_ADDR) s2 of Inl f \<Rightarrow> Inl f
           | Inr (u, s3) \<Rightarrow>
               (case read64 p s3 of Inl f \<Rightarrow> Inl f
                | Inr (e', s4) \<Rightarrow> write64 p (e' OR (w AND PAGE_ADDR)) s4)))"
  have b: "\<exists>s1. machine s1 = machine s \<and>
      paging_set_paddr p z s = ?B (ALIGN_DOWN z PAGE_SIZE) s1" for z
  proof (cases "z mod PAGE_SIZE \<noteq> 0")
    case True
    then show ?thesis
      by (intro exI[of _ "warning ''[paging_set_addr] paddr is not 4 KiB aligned, paddr: %lx\<newline>'' [z] s"])
        (simp add: paging_set_paddr_def warning_def)
  next
    case False
    then have az: "ALIGN_DOWN z PAGE_SIZE = z" by (simp add: align_down_idem)
    from False show ?thesis
      unfolding az by (intro exI[of _ s]) (simp add: paging_set_paddr_def)
  qed
  from b[of x] obtain s1 where s1: "machine s1 = machine s"
    "paging_set_paddr p x s = ?B (ALIGN_DOWN x PAGE_SIZE) s1" by blast
  from b[of y] obtain t1 where t1: "machine t1 = machine s"
    "paging_set_paddr p y s = ?B (ALIGN_DOWN y PAGE_SIZE) t1" by blast
  have m: "machine s1 = machine t1" using s1(1) t1(1) by simp
  show ?thesis
    unfolding s1(2) t1(2) assms by (rule set_paddr_body_effect[OF m])
qed

text \<open>
  C8. For a page-aligned address \<open>a\<close> and an offset \<open>d\<close> below the page size,
  \<^verbatim>\<open>paging_walk\<close>, \<^verbatim>\<open>__paging_map\<close> (in its virtual and in its physical address),
  \<^verbatim>\<open>__paging_unmap\<close>, \<^verbatim>\<open>paging_set_paddr\<close> and \<^verbatim>\<open>paging_map\<close> called with \<open>a + d\<close>
  return (or stop) as they do with \<open>a\<close>, with the same value and the same state up to the
  diagnostic output, where the unaligned call has its warning.
\<close>

theorem alignment_correction:
  assumes "a mod PAGE_SIZE = 0" and "d < PAGE_SIZE"
  shows "effect (paging_walk root (a + d) level create s) =
           effect (paging_walk root a level create s)
       \<and> effect (paging_map_root root (a + d) paddr flags s) =
           effect (paging_map_root root a paddr flags s)
       \<and> effect (paging_map_root root vaddr (a + d) flags s) =
           effect (paging_map_root root vaddr a flags s)
       \<and> effect (paging_unmap_root root (a + d) s) = effect (paging_unmap_root root a s)
       \<and> effect (paging_set_paddr pentry (a + d) s) = effect (paging_set_paddr pentry a s)
       \<and> effect (paging_map (a + d) paddr flags s) = effect (paging_map a paddr flags s)
       \<and> effect (paging_map vaddr (a + d) flags s) = effect (paging_map vaddr a flags s)"
proof -
  have e: "ALIGN_DOWN (a + d) PAGE_SIZE = ALIGN_DOWN a PAGE_SIZE"
    using align_down_offset[OF assms(1,2)] align_down_idem[OF assms(1)] by simp
  show ?thesis
    unfolding paging_map_def
    by (intro conjI paging_walk_effect paging_map_root_effect paging_unmap_root_effect
        paging_set_paddr_align_effect e refl)
qed

theorem alignment_correction_witness:
  "(0x400000 :: 64 word) mod PAGE_SIZE = 0 \<and> (0x123 :: 64 word) < PAGE_SIZE
   \<and> effect (paging_walk 0x1000 0x400123 PML1 False (boot_state mapped_mem [])) =
       Inr (0x4000, boot_state mapped_mem [])
   \<and> effect (paging_unmap_root 0x1000 0x400123 (boot_state mapped_mem [])) =
       Inr ((), boot_state (store64 mapped_mem 0x4000 0) [])
   \<and> effect (paging_map_root 0x1000 0x400123 0x200000 0x3 (boot_state mapped_mem [])) =
       Inr ((), boot_state mapped_mem [])
   \<and> effect (paging_map_root 0x1000 0x400000 0x200123 0x3 (boot_state mapped_mem [])) =
       Inr ((), boot_state mapped_mem [])
   \<and> effect (paging_set_paddr 0x4000 0x200123 (boot_state mapped_mem [])) =
       effect (paging_set_paddr 0x4000 0x200000 (boot_state mapped_mem []))"
proof -
  have d: "(0x123 :: 64 word) < PAGE_SIZE" by (simp add: PAGE_SIZE_def)
  have m: "machine (boot_state x fs) = boot_state x fs" for x fs
    by (simp add: machine_def boot_state_def)
  have c: "paging_map_root 0x1000 0x400000 0x200000 0x3 (boot_state mapped_mem []) =
      Inr ((), error
        ''[paging_map] request to map vaddr 0x%lx to paddr 0x%lx but vaddr was already mapped to %0xlx.''
        [0x400000, 0x200000, load64 (mem (boot_state mapped_mem [])) 0x4000 AND PAGE_ADDR]
        (boot_state mapped_mem []))"
    by (rule map_conflict[OF example_aligned(1,3) example_aligned2 mapped_walk example_aligned(2)
          mapped_leaf_present])
  note a = alignment_correction[OF example_aligned(3) d,
      where root="0x1000" and s="boot_state mapped_mem []" and level=PML1 and create=False
        and paddr="0x200000" and flags="0x3"]
  note b = alignment_correction[OF example_aligned2 d,
      where root="0x1000" and s="boot_state mapped_mem []" and vaddr="0x400000" and flags="0x3"
        and pentry="0x4000"]
  have w: "effect (paging_walk 0x1000 0x400123 PML1 False (boot_state mapped_mem [])) =
       Inr (0x4000, boot_state mapped_mem [])"
    using a[THEN conjunct1] by (simp add: mapped_paging_walk m)
  have u: "effect (paging_unmap_root 0x1000 0x400123 (boot_state mapped_mem [])) =
       Inr ((), boot_state (store64 mapped_mem 0x4000 0) [])"
    using a[THEN conjunct2, THEN conjunct2, THEN conjunct2, THEN conjunct1]
    by (simp add: mapped_unmap m)
  have p1: "effect (paging_map_root 0x1000 0x400123 0x200000 0x3 (boot_state mapped_mem [])) =
       Inr ((), boot_state mapped_mem [])"
    using a[THEN conjunct2, THEN conjunct1]
    by (simp add: c error_def m)
  have p2: "effect (paging_map_root 0x1000 0x400000 0x200123 0x3 (boot_state mapped_mem [])) =
       Inr ((), boot_state mapped_mem [])"
    using b[THEN conjunct2, THEN conjunct2, THEN conjunct1]
    by (simp add: c error_def m)
  have sp: "effect (paging_set_paddr 0x4000 0x200123 (boot_state mapped_mem [])) =
       effect (paging_set_paddr 0x4000 0x200000 (boot_state mapped_mem []))"
    using b[THEN conjunct2, THEN conjunct2, THEN conjunct2, THEN conjunct2, THEN conjunct1]
    by simp
  show ?thesis
    using w u p1 p2 sp d example_aligned(3) by simp
qed

section \<open>Table creation\<close>

lemma boot_state_fields [simp]:
  "frames (boot_state m fs) = fs" "out (boot_state m fs) = []"
  "flushed (boot_state m fs) = []" "cr3 (boot_state m fs) = 0x1000"
  by (simp_all add: boot_state_def)

lemma boot_state_frames_update [simp]:
  "(boot_state m fs)\<lparr>frames := fs'\<rparr> = boot_state m fs'"
  by (simp add: boot_state_def)

text \<open>
  C1. \<^verbatim>\<open>paging_create\<close> on a frame at \<open>0x2000\<close> whose second entry holds 1: the table
  it returns still has that entry, with the present flag set. \<^verbatim>\<open>memset\<close> is given
  \<^verbatim>\<open>sizeof(ptable)\<close>, the size of the pointer, and clears the first entry only.
\<close>

theorem paging_create_keeps_stale_entry:
  "paging_create (boot_state (store64 zero_mem 0x2008 0x1) [0x2000]) =
     Inr (0x2000, boot_state (store64 (store64 zero_mem 0x2008 0x1) 0x2000 0) [])
   \<and> entry_ptr 0x2000 1 = 0x2008
   \<and> load64 (store64 (store64 zero_mem 0x2008 0x1) 0x2000 0) (entry_ptr 0x2000 1) = 0x1
   \<and> present_at (store64 (store64 zero_mem 0x2008 0x1) 0x2000 0) (entry_ptr 0x2000 1)"
proof -
  have e: "entry_ptr 0x2000 1 = 0x2008"
    by (simp add: entry_ptr_def sizeof_entry_def)
  have c: "paging_create (boot_state (store64 zero_mem 0x2008 0x1) [0x2000]) =
     Inr (0x2000, boot_state (store64 (store64 zero_mem 0x2008 0x1) 0x2000 0) [])"
    by (subst paging_create_eq[where f="0x2000" and fs="[]"]) (simp_all add: NULL_def)
  have l: "load64 (store64 (store64 zero_mem 0x2008 0x1) 0x2000 0) 0x2008 = 0x1"
    by (simp add: load64_store64_other load64_store64_same)
  show ?thesis
    unfolding e using c l by (simp add: present_at_def PAGE_PRESENT_def)
qed

lemma paging_create_other_entries:
  assumes "frames s = f # fs" "take_bit 3 f = 0" "f \<noteq> NULL" "k \<noteq> 0" "k < 512"
  shows "paging_create s = Inr (f, s\<lparr>frames := fs, mem := store64 (mem s) f 0\<rparr>)"
    and "load64 (store64 (mem s) f 0) (entry_ptr f k) = load64 (mem s) (entry_ptr f k)"
proof -
  show "paging_create s = Inr (f, s\<lparr>frames := fs, mem := store64 (mem s) f 0\<rparr>)"
    by (rule paging_create_eq[OF assms(1,2,3)])
  have "8 * k \<noteq> 0"
  proof
    assume z: "8 * k = 0"
    have "unat k < 512" using assms(5) by (simp add: word_less_nat_alt)
    then have "unat (8 * k) = 8 * unat k"
      by (simp add: unat_word_ariths)
    with z have "unat k = 0" by simp
    then show False using assms(4) by (simp add: unat_eq_0)
  qed
  then have ne: "f \<noteq> entry_ptr f k"
    by (simp add: entry_ptr_def sizeof_entry_def)
  show "load64 (store64 (mem s) f 0) (entry_ptr f k) = load64 (mem s) (entry_ptr f k)"
    by (rule load64_store64_other[OF assms(2) entry_ptr_aligned[OF assms(2)] ne])
qed

lemma walk_loop_create_step:
  assumes "l \<le> i" "i \<noteq> l"
    and "entry_ptr c (paging_vaddr_idx v i) \<noteq> NULL"
    and "\<not> present_at (mem s) (entry_ptr c (paging_vaddr_idx v i))"
    and "frames s = f # fs" "f mod PAGE_SIZE = 0" "f \<noteq> NULL"
  shows "walk_loop c v l True i s =
     walk_loop f v l True (i - 1)
       (s\<lparr>frames := fs,
          mem := store64 (store64 (mem s) f 0) (entry_ptr c (paging_vaddr_idx v i))
            (((load64 (store64 (mem s) f 0) (entry_ptr c (paging_vaddr_idx v i))
                AND NOT PAGE_ADDR) OR (f AND PAGE_ADDR)) OR PAGE_PRESENT)\<rparr>)"
proof -
  have al: "take_bit 3 f = 0"
  proof -
    have "take_bit 12 f = 0" using assms(6) by (simp add: page_mod)
    then have "take_bit 3 (take_bit 12 f) = 0" by simp
    then show ?thesis by (simp add: take_bit_take_bit)
  qed
  show ?thesis
    using assms
    by (subst walk_loop.simps)
      (simp add: Let_def paging_check_flags_present paging_create_eq[OF assms(5) al assms(7)]
        paging_set_paddr_ok paging_set_flags_ok present_not_addr load64_store64_same
        store64_store64 align_down_idem)
qed

lemma fresh_space_conflict:
  "out (res_state (paging_map_root 0x1000 0x1000 0x100000 0x3
          (boot_state (store64 zero_mem 0x4008 0x1) [0x2000, 0x3000, 0x4000]))) =
     [(Error,
       ''[paging_map] request to map vaddr 0x%lx to paddr 0x%lx but vaddr was already mapped to %0xlx.'',
       [0x1000, 0x100000, 0])]"
proof -
  let ?s0 = "boot_state (store64 zero_mem 0x4008 0x1) [0x2000, 0x3000, 0x4000]"
  have idx: "paging_vaddr_idx 0x1000 3 = 0" "paging_vaddr_idx 0x1000 2 = 0"
    "paging_vaddr_idx 0x1000 (Suc 0) = 0" "paging_vaddr_idx 0x1000 0 = 1"
    by (simp_all add: paging_vaddr_idx_def PAGE_IDX_SIZE_def PAGE_OFFSET_SIZE_def
        PAGE_IDX_MASK_def)
  have w: "\<exists>m. walk_loop 0x1000 0x1000 PML1 True PML4 ?s0 = Inr (0x4008, boot_state m [])
      \<and> load64 m 0x4008 = 1"
    apply (simp add: PML1_def PML4_def)
    apply (subst walk_loop_create_step[where f="0x2000" and fs="[0x3000, 0x4000]"])
           apply (simp_all add: idx entry_ptr_def sizeof_entry_def NULL_def PAGE_SIZE_def
        present_at_def PAGE_PRESENT_def PAGE_ADDR_def load64_store64_other load64_store64_same)
    apply (subst walk_loop_create_step[where f="0x3000" and fs="[0x4000]"])
           apply (simp_all add: idx entry_ptr_def sizeof_entry_def NULL_def PAGE_SIZE_def
        present_at_def PAGE_PRESENT_def PAGE_ADDR_def load64_store64_other load64_store64_same)
    apply (subst walk_loop_create_step[where f="0x4000" and fs="[]"])
           apply (simp_all add: idx entry_ptr_def sizeof_entry_def NULL_def PAGE_SIZE_def
        present_at_def PAGE_PRESENT_def PAGE_ADDR_def load64_store64_other load64_store64_same)
    apply (subst walk_loop.simps)
    apply (simp add: idx entry_ptr_def sizeof_entry_def load64_store64_other load64_store64_same)
    apply (intro exI conjI, rule refl)
    apply (simp add: load64_store64_other load64_store64_same)
    done
  then obtain m where m: "walk_loop 0x1000 0x1000 PML1 True PML4 ?s0 = Inr (0x4008, boot_state m [])"
    "load64 m 0x4008 = 1" by blast
  have a: "(0x1000 :: 64 word) \<noteq> NULL" "(0x1000 :: 64 word) mod PAGE_SIZE = 0"
    "(0x100000 :: 64 word) mod PAGE_SIZE = 0" "(0x4008 :: 64 word) \<noteq> NULL"
    by (simp_all add: NULL_def PAGE_SIZE_def)
  show ?thesis
    by (simp add: paging_map_root_aligned[OF a(1,2,3) m(1) a(4)] present_at_def m(2)
        PAGE_PRESENT_def PAGE_ADDR_def error_def)
qed


text \<open>With frames that are already zero the same call maps the page: the three tables are
  created and linked, and the leaf-level walk then finds the mapping.\<close>

lemma fresh_space_round_trip:
  "\<exists>m. paging_map_root 0x1000 0x400000 0x100000 0x3
          (boot_state zero_mem [0x2000, 0x3000, 0x4000]) = Inr ((), boot_state m [])
      \<and> paging_walk 0x1000 0x400000 PML1 False (boot_state m []) = Inr (0x4000, boot_state m [])
      \<and> paging_get_paddr 0x4000 (boot_state m []) = Inr (0x100000, boot_state m [])
      \<and> paging_check_flags 0x4000 PAGE_PRESENT (boot_state m []) = Inr (True, boot_state m [])"
proof -
  let ?s0 = "boot_state zero_mem [0x2000, 0x3000, 0x4000]"
  let ?m = "store64 (store64 (store64 (store64 (store64 (store64 zero_mem 0x2000 0)
      0x1000 0x2001) 0x3000 0) 0x2000 0x3001) 0x4000 0) 0x3010 0x4001"
  have idx: "paging_vaddr_idx 0x400000 3 = 0" "paging_vaddr_idx 0x400000 2 = 0"
    "paging_vaddr_idx 0x400000 (Suc 0) = 2" "paging_vaddr_idx 0x400000 0 = 0"
    by (simp_all add: paging_vaddr_idx_def PAGE_IDX_SIZE_def PAGE_OFFSET_SIZE_def
        PAGE_IDX_MASK_def)
  have w: "walk_loop 0x1000 0x400000 PML1 True PML4 ?s0 = Inr (0x4000, boot_state ?m [])"
    apply (simp add: PML1_def PML4_def)
    apply (subst walk_loop_create_step[where f="0x2000" and fs="[0x3000, 0x4000]"])
           apply (simp_all add: idx entry_ptr_def sizeof_entry_def NULL_def PAGE_SIZE_def
        present_at_def PAGE_PRESENT_def PAGE_ADDR_def load64_store64_other load64_store64_same)
    apply (subst walk_loop_create_step[where f="0x3000" and fs="[0x4000]"])
           apply (simp_all add: idx entry_ptr_def sizeof_entry_def NULL_def PAGE_SIZE_def
        present_at_def PAGE_PRESENT_def PAGE_ADDR_def load64_store64_other load64_store64_same)
    apply (subst walk_loop_create_step[where f="0x4000" and fs="[]"])
           apply (simp_all add: idx entry_ptr_def sizeof_entry_def NULL_def PAGE_SIZE_def
        present_at_def PAGE_PRESENT_def PAGE_ADDR_def load64_store64_other load64_store64_same)
    apply (subst walk_loop.simps)
    apply (simp add: idx entry_ptr_def sizeof_entry_def load64_store64_other load64_store64_same)
    done
  have l: "load64 ?m 0x1000 = 0x2001" "load64 ?m 0x2000 = 0x3001" "load64 ?m 0x3010 = 0x4001"
    "load64 ?m 0x4000 = 0"
    by (simp_all add: load64_store64_other load64_store64_same)
  have np: "\<not> present_at (mem (boot_state ?m [])) 0x4000"
    by (simp add: present_at_def l PAGE_PRESENT_def)
  have a: "(0x1000 :: 64 word) \<noteq> NULL" "(0x400000 :: 64 word) mod PAGE_SIZE = 0"
    "(0x100000 :: 64 word) mod PAGE_SIZE = 0" "(0x4000 :: 64 word) \<noteq> NULL"
    by (simp_all add: NULL_def PAGE_SIZE_def)
  let ?m' = "store64 ?m 0x4000 0x100003"
  have mp: "paging_map_root 0x1000 0x400000 0x100000 0x3 ?s0 = Inr ((), boot_state ?m' [])"
    using np
    by (simp add: paging_map_root_aligned[OF a(1,2,3) w a(4)] paging_set_flags_ok
        paging_set_paddr_ok a load64_store64_same store64_store64 align_down_idem l
        PAGE_ADDR_def)
  have l': "load64 ?m' 0x1000 = 0x2001" "load64 ?m' 0x2000 = 0x3001" "load64 ?m' 0x3010 = 0x4001"
    "load64 ?m' 0x4000 = 0x100003"
    by (simp_all add: load64_store64_other load64_store64_same)
  have wk: "paging_walk 0x1000 0x400000 PML1 False (boot_state ?m' []) =
      Inr (0x4000, boot_state ?m' [])"
    by (simp add: paging_walk_aligned a walk_loop_lookup PML1_def PML4_def idx entry_ptr_def
        sizeof_entry_def NULL_def present_at_def PAGE_PRESENT_def PAGE_ADDR_def l')
  have pr: "present_at ?m' 0x4000"
    by (simp add: present_at_def l' PAGE_PRESENT_def)
  have g: "paging_get_paddr 0x4000 (boot_state ?m' []) = Inr (0x100000, boot_state ?m' [])"
    "paging_check_flags 0x4000 PAGE_PRESENT (boot_state ?m' []) = Inr (True, boot_state ?m' [])"
    by (simp_all add: paging_get_paddr_eq paging_check_flags_present a pr l' PAGE_ADDR_def)
  show ?thesis
    using mp wk g by blast
qed

end
